theory Spec2Isabelle
  imports Complex_Main "HOL-Library.Word" "HOL-Library.Log_Nat" "HOL-Library.Multiset"
begin

unbundle bit_operations_syntax

section \<open>Python strings and their UTF-8 encoding\<close>

text \<open>
  A Python \<open>str\<close> is a sequence of Unicode code points (0 .. 0x10FFFF), lone surrogates
  (0xD800 .. 0xDFFF) included. It is modelled as a list of natural numbers. Two strings are
  equal when they are the same sequence of code points, \<open>+\<close> is list append.
\<close>

type_synonym pystr = "nat list"
type_synonym byte = "8 word"
type_synonym u32 = "32 word"

text \<open>An ASCII literal of the source, as a Python string.\<close>

definition str :: "string \<Rightarrow> pystr" where
  "str s = map of_char s"

datatype error = UnicodeEncodeError

text \<open>
  \<open>s.encode()\<close> is the strict UTF-8 codec: a surrogate code point raises
  \<open>UnicodeEncodeError\<close>. A number above 0x10FFFF is no code point; no Python string
  holds one, and the model refuses it the same way.
\<close>

definition utf8_char :: "nat \<Rightarrow> error + byte list" where
  "utf8_char c =
     (if c < 0x80 then Inr [of_nat c]
      else if c < 0x800 then Inr [of_nat (0xC0 + c div 64), of_nat (0x80 + c mod 64)]
      else if c < 0x10000 then
        (if 0xD800 \<le> c \<and> c \<le> 0xDFFF then Inl UnicodeEncodeError
         else Inr [of_nat (0xE0 + c div 4096), of_nat (0x80 + (c div 64) mod 64),
                   of_nat (0x80 + c mod 64)])
      else if c < 0x110000 then
        Inr [of_nat (0xF0 + c div 262144), of_nat (0x80 + (c div 4096) mod 64),
             of_nat (0x80 + (c div 64) mod 64), of_nat (0x80 + c mod 64)]
      else Inl UnicodeEncodeError)"

fun encode :: "pystr \<Rightarrow> error + byte list" where
  "encode [] = Inr []"
| "encode (c # cs) =
     (case utf8_char c of
        Inl e \<Rightarrow> Inl e
      | Inr bs \<Rightarrow> (case encode cs of Inl e \<Rightarrow> Inl e | Inr rest \<Rightarrow> Inr (bs @ rest)))"

text \<open>The strings \<open>encode\<close> accepts: code points that are not surrogates.\<close>

definition encodable :: "pystr \<Rightarrow> bool" where
  "encodable s = list_all (\<lambda>c. c < 0x110000 \<and> \<not> (0xD800 \<le> c \<and> c \<le> 0xDFFF)) s"

section \<open>SHA-256 (\<open>hashlib.sha256\<close>), after FIPS 180-4\<close>

definition K256 :: "u32 list" where
  "K256 =
    [1116352408, 1899447441, 3049323471, 3921009573, 961987163, 1508970993, 2453635748, 2870763221,
     3624381080, 310598401, 607225278, 1426881987, 1925078388, 2162078206, 2614888103, 3248222580,
     3835390401, 4022224774, 264347078, 604807628, 770255983, 1249150122, 1555081692, 1996064986,
     2554220882, 2821834349, 2952996808, 3210313671, 3336571891, 3584528711, 113926993, 338241895,
     666307205, 773529912, 1294757372, 1396182291, 1695183700, 1986661051, 2177026350, 2456956037,
     2730485921, 2820302411, 3259730800, 3345764771, 3516065817, 3600352804, 4094571909, 275423344,
     430227734, 506948616, 659060556, 883997877, 958139571, 1322822218, 1537002063, 1747873779,
     1955562222, 2024104815, 2227730452, 2361852424, 2428436474, 2756734187, 3204031479, 3329325298]"

definition H256 :: "u32 list" where
  "H256 = [1779033703, 3144134277, 1013904242, 2773480762,
           1359893119, 2600822924, 528734635, 1541459225]"

definition Ch :: "u32 \<Rightarrow> u32 \<Rightarrow> u32 \<Rightarrow> u32" where
  "Ch x y z = (x AND y) XOR (NOT x AND z)"

definition Maj :: "u32 \<Rightarrow> u32 \<Rightarrow> u32 \<Rightarrow> u32" where
  "Maj x y z = (x AND y) XOR (x AND z) XOR (y AND z)"

definition bsig0 :: "u32 \<Rightarrow> u32" where
  "bsig0 x = word_rotr 2 x XOR word_rotr 13 x XOR word_rotr 22 x"

definition bsig1 :: "u32 \<Rightarrow> u32" where
  "bsig1 x = word_rotr 6 x XOR word_rotr 11 x XOR word_rotr 25 x"

definition ssig0 :: "u32 \<Rightarrow> u32" where
  "ssig0 x = word_rotr 7 x XOR word_rotr 18 x XOR drop_bit 3 x"

definition ssig1 :: "u32 \<Rightarrow> u32" where
  "ssig1 x = word_rotr 17 x XOR word_rotr 19 x XOR drop_bit 10 x"

text \<open>Padding: the byte 0x80, zero bytes up to 56 modulo 64, the bit length as 64 bits.\<close>

definition be_bytes :: "nat \<Rightarrow> nat \<Rightarrow> byte list" where
  "be_bytes k n = map (\<lambda>i. of_nat (n div 256 ^ (k - 1 - i))) [0..<k]"

definition pad :: "byte list \<Rightarrow> byte list" where
  "pad m = m @ [0x80] @ replicate ((119 - length m mod 64) mod 64) 0
             @ be_bytes 8 ((8 * length m) mod 2 ^ 64)"

fun be_word :: "byte list \<Rightarrow> u32" where
  "be_word bs = foldl (\<lambda>w b. push_bit 8 w OR ucast b) 0 bs"

fun block_words :: "nat \<Rightarrow> byte list \<Rightarrow> u32 list" where
  "block_words 0 bs = []"
| "block_words (Suc n) bs = be_word (take 4 bs) # block_words n (drop 4 bs)"

text \<open>The message schedule: sixteen words of the block, extended to sixty-four.\<close>

fun schedule :: "nat \<Rightarrow> u32 list \<Rightarrow> u32 list" where
  "schedule 0 ws = ws"
| "schedule (Suc n) ws =
     (let k = length ws in
      schedule n (ws @ [ssig1 (ws ! (k - 2)) + ws ! (k - 7) + ssig0 (ws ! (k - 15)) + ws ! (k - 16)]))"

fun round256 :: "u32 list \<Rightarrow> u32 \<times> u32 \<Rightarrow> u32 list" where
  "round256 [a, b, c, d, e, f, g, h] (k, w) =
     (let t1 = h + bsig1 e + Ch e f g + k + w;
          t2 = bsig0 a + Maj a b c
      in [t1 + t2, a, b, c, d + t1, e, f, g])"
| "round256 st kw = st"

definition compress :: "u32 list \<Rightarrow> byte list \<Rightarrow> u32 list" where
  "compress hs blk =
     map2 (+) hs (foldl round256 hs (zip K256 (schedule 48 (block_words 16 blk))))"

fun blocks :: "nat \<Rightarrow> u32 list \<Rightarrow> byte list \<Rightarrow> u32 list" where
  "blocks 0 hs bs = hs"
| "blocks (Suc n) hs bs = blocks n (compress hs (take 64 bs)) (drop 64 bs)"

definition sha256 :: "byte list \<Rightarrow> byte list" where
  "sha256 m = (let p = pad m in
     concat (map (\<lambda>w. be_bytes 4 (unat w)) (blocks (length p div 64) H256 p)))"

text \<open>\<open>hexdigest()\<close>: two lowercase hexadecimal digits for every byte.\<close>

definition hex_digit :: "nat \<Rightarrow> nat" where
  "hex_digit n = (if n < 10 then 48 + n else 87 + n)"

definition hexdigest :: "byte list \<Rightarrow> pystr" where
  "hexdigest bs = concat (map (\<lambda>b. [hex_digit (unat b div 16), hex_digit (unat b mod 16)]) bs)"

section \<open>Knowledge entries\<close>

text \<open>
  \<open>class KnowledgeEntry\<close>. The identifier and the timestamp come from \<open>uuid.uuid4()\<close> and
  \<open>datetime.utcnow()\<close>; the constructor of the model takes them as arguments.
\<close>

record KnowledgeEntry =
  entry_id :: pystr
  timestamp :: pystr
  content :: pystr
  source :: pystr
  tags :: "pystr list"
  fingerprint :: pystr

definition compute_fingerprint :: "KnowledgeEntry \<Rightarrow> error + pystr" where
  "compute_fingerprint self =
     (case encode (content self @ source self) of
        Inl e \<Rightarrow> Inl e
      | Inr bs \<Rightarrow> Inr (hexdigest (sha256 bs)))"

definition KnowledgeEntry_init ::
    "pystr \<Rightarrow> pystr \<Rightarrow> pystr \<Rightarrow> pystr \<Rightarrow> pystr list \<Rightarrow> error + KnowledgeEntry" where
  "KnowledgeEntry_init uuid4 utcnow c s ts =
     (let self = \<lparr>entry_id = uuid4, timestamp = utcnow, content = c, source = s,
                  tags = ts, fingerprint = []\<rparr>
      in case compute_fingerprint self of
           Inl e \<Rightarrow> Inl e
         | Inr fp \<Rightarrow> Inr (self\<lparr>fingerprint := fp\<rparr>))"

text \<open>An entry as the constructor leaves it: its fingerprint is the hash of its own fields.\<close>

definition constructed :: "KnowledgeEntry \<Rightarrow> bool" where
  "constructed e = (compute_fingerprint e = Inr (fingerprint e))"

section \<open>The knowledge base\<close>

text \<open>
  \<open>self.entries\<close> is a \<open>dict\<close>: a list of key-value pairs in insertion order. Assigning to a
  key that is present replaces the value in place, assigning to a new key appends.
\<close>

type_synonym ('k, 'v) dict = "('k \<times> 'v) list"

definition dict_contains :: "('k, 'v) dict \<Rightarrow> 'k \<Rightarrow> bool" where
  "dict_contains d k = (k \<in> set (map fst d))"

fun dict_setitem :: "('k, 'v) dict \<Rightarrow> 'k \<Rightarrow> 'v \<Rightarrow> ('k, 'v) dict" where
  "dict_setitem [] k v = [(k, v)]"
| "dict_setitem (p # ps) k v = (if fst p = k then (k, v) # ps else p # dict_setitem ps k v)"

definition dict_values :: "('k, 'v) dict \<Rightarrow> 'v list" where
  "dict_values d = map snd d"

record KnowledgeBase =
  entries :: "(pystr, KnowledgeEntry) dict"

definition KnowledgeBase_init :: KnowledgeBase where
  "KnowledgeBase_init = \<lparr>entries = []\<rparr>"

definition add_entry :: "KnowledgeBase \<Rightarrow> KnowledgeEntry \<Rightarrow> KnowledgeBase" where
  "add_entry self entry =
     (if \<not> dict_contains (entries self) (fingerprint entry)
      then self\<lparr>entries := dict_setitem (entries self) (fingerprint entry) entry\<rparr>
      else self)"

definition search_by_tag :: "KnowledgeBase \<Rightarrow> pystr \<Rightarrow> KnowledgeEntry list" where
  "search_by_tag self tag = filter (\<lambda>e. tag \<in> set (tags e)) (dict_values (entries self))"

definition all_entries :: "KnowledgeBase \<Rightarrow> KnowledgeEntry list" where
  "all_entries self = dict_values (entries self)"

text \<open>A call of one of the three methods: the base afterwards and the value returned.\<close>

datatype kb_call = AddEntry KnowledgeEntry | SearchByTag pystr | AllEntries

fun call :: "KnowledgeBase \<Rightarrow> kb_call \<Rightarrow> KnowledgeBase \<times> KnowledgeEntry list" where
  "call kb (AddEntry e) = (add_entry kb e, [])"
| "call kb (SearchByTag t) = (kb, search_by_tag kb t)"
| "call kb AllEntries = (kb, all_entries kb)"

definition run :: "kb_call list \<Rightarrow> KnowledgeBase" where
  "run cs = foldl (\<lambda>kb c. fst (call kb c)) KnowledgeBase_init cs"

definition added :: "kb_call list \<Rightarrow> KnowledgeEntry list" where
  "added cs = concat (map (\<lambda>c. case c of AddEntry e \<Rightarrow> [e] | _ \<Rightarrow> []) cs)"

text \<open>
  The fingerprint as a function of the pair (content, source), and the invariant of a
  knowledge base: every key is the fingerprint of its entry, every entry is as its
  constructor left it, and no key occurs twice.
\<close>

definition fp_of :: "pystr \<times> pystr \<Rightarrow> error + pystr" where
  "fp_of cs = (case encode (fst cs @ snd cs) of
                 Inl e \<Rightarrow> Inl e
               | Inr bs \<Rightarrow> Inr (hexdigest (sha256 bs)))"

definition kb_inv :: "KnowledgeBase \<Rightarrow> bool" where
  "kb_inv kb = ((\<forall>(k, e) \<in> set (entries kb). fingerprint e = k \<and> constructed e) \<and>
                distinct (map fst (entries kb)))"

section \<open>Python floats\<close>

text \<open>
  A Python \<open>float\<close> is an IEEE 754 binary64 number. The model keeps the exact rational
  value of a finite float and has the two infinities and NaN; the sign of zero is not kept
  (nothing here divides, prints or compares a zero by sign). Every arithmetic operation is
  the exact operation on rationals followed by \<open>round64\<close>: rounding to nearest, ties to
  the even significand, with subnormals below \<open>2 ^ - 1022\<close> and overflow to infinity from
  \<open>2 ^ 1024 - 2 ^ 970\<close>.
\<close>

datatype double = Fin rat | PInf | NInf | NaN

text \<open>\<open>ilog2 q\<close> is the integer part of the binary logarithm of a positive rational.\<close>

definition pow2 :: "int \<Rightarrow> rat" where
  "pow2 e = (if 0 \<le> e then 2 ^ nat e else 1 / 2 ^ nat (- e))"

definition ilog2 :: "rat \<Rightarrow> int" where
  "ilog2 q = (if 1 \<le> q then bitlen \<lfloor>q\<rfloor> - 1 else - bitlen (\<lceil>1 / q\<rceil> - 1))"

definition round_half_even :: "rat \<Rightarrow> int" where
  "round_half_even q =
     (let f = \<lfloor>q\<rfloor>; d = q - of_int f
      in if d < 1 / 2 then f else if 1 / 2 < d then f + 1 else if even f then f else f + 1)"

definition ulp_exp :: "rat \<Rightarrow> int" where
  "ulp_exp q = max (ilog2 \<bar>q\<bar>) (- 1022) - 52"

definition round64 :: "rat \<Rightarrow> double" where
  "round64 q =
     (if q = 0 then Fin 0
      else let p = ulp_exp q; r = of_int (round_half_even (q / pow2 p)) * pow2 p
           in if 2 ^ 1024 \<le> \<bar>r\<bar> then (if 0 < q then PInf else NInf) else Fin r)"

fun fadd :: "double \<Rightarrow> double \<Rightarrow> double" where
  "fadd (Fin a) (Fin b) = round64 (a + b)"
| "fadd NaN y = NaN"
| "fadd x NaN = NaN"
| "fadd PInf NInf = NaN"
| "fadd NInf PInf = NaN"
| "fadd PInf y = PInf"
| "fadd x PInf = PInf"
| "fadd NInf y = NInf"
| "fadd x NInf = NInf"

text \<open>The comparison \<open>x <= y\<close> of two floats; a comparison with NaN is false.\<close>

fun fle :: "double \<Rightarrow> double \<Rightarrow> bool" where
  "fle (Fin a) (Fin b) = (a \<le> b)"
| "fle NaN y = False"
| "fle x NaN = False"
| "fle NInf y = True"
| "fle x PInf = True"
| "fle x y = False"

definition fsgn :: "double \<Rightarrow> int" where
  "fsgn x = (case x of Fin q \<Rightarrow> sgn \<lfloor>sgn q\<rfloor> | PInf \<Rightarrow> 1 | NInf \<Rightarrow> - 1 | NaN \<Rightarrow> 0)"

fun fmul :: "double \<Rightarrow> double \<Rightarrow> double" where
  "fmul (Fin a) (Fin b) = round64 (a * b)"
| "fmul NaN y = NaN"
| "fmul x NaN = NaN"
| "fmul x y = (if fsgn x * fsgn y = 0 then NaN else if 0 < fsgn x * fsgn y then PInf else NInf)"

text \<open>
  \<open>round(x, ndigits)\<close> with \<open>ndigits \<ge> 0\<close>: the decimal with that many digits nearest to the
  exact value of \<open>x\<close> (ties to the even digit), converted back to the nearest float;
  infinities and NaN are returned as they are. The \<open>OverflowError\<close> of \<open>round\<close> needs a
  rounded decimal beyond the largest float, which does not exist for \<open>ndigits \<ge> 0\<close>.
\<close>

definition py_round :: "double \<Rightarrow> nat \<Rightarrow> double" where
  "py_round x ndigits =
     (case x of
        Fin q \<Rightarrow> round64 (of_int (round_half_even (q * 10 ^ ndigits)) / 10 ^ ndigits)
      | _ \<Rightarrow> x)"

text \<open>
  \<open>sum(iterable)\<close> adds the items from left to right, starting from the integer 0, which
  the first addition converts to the float 0.0. This is \<open>sum\<close> as CPython has it up to
  version 3.11; from 3.12 on it carries a compensation term for floats, which is not
  modelled.
\<close>

definition py_sum :: "double list \<Rightarrow> double" where
  "py_sum xs = foldl fadd (Fin 0) xs"

section \<open>Proof trees\<close>

text \<open>
  \<open>class ProofNode\<close>. A node owns the list of its children; the datatype holds the finite
  trees, which is what \<open>add_child\<close> builds when no node is added below itself. The
  identifier and the creation time come from \<open>uuid.uuid4()\<close> and \<open>datetime.utcnow()\<close>.
\<close>

datatype ProofNode =
  ProofNode (node_id: pystr) (claim: pystr) (node_source: pystr) (proof_type: pystr)
    (children: "ProofNode list") (created: pystr)

definition ProofNode_init :: "pystr \<Rightarrow> pystr \<Rightarrow> pystr \<Rightarrow> pystr \<Rightarrow> pystr \<Rightarrow> ProofNode" where
  "ProofNode_init uuid4 utcnow c s pt = ProofNode uuid4 c s pt [] utcnow"

definition add_child :: "ProofNode \<Rightarrow> ProofNode \<Rightarrow> ProofNode" where
  "add_child self node =
     ProofNode (node_id self) (claim self) (node_source self) (proof_type self)
       (children self @ [node]) (created self)"

text \<open>A float literal of the source denotes the float nearest to the decimal.\<close>

definition float_lit :: "rat \<Rightarrow> double" where
  "float_lit q = round64 q"

definition weight_map :: "(pystr, double) dict" where
  "weight_map =
     [(str ''experiment'', float_lit 1),
      (str ''observation'', float_lit (8 / 10)),
      (str ''text'', float_lit (6 / 10)),
      (str ''tradition'', float_lit (4 / 10)),
      (str ''opinion'', float_lit (2 / 10))]"

definition dict_get :: "('k, 'v) dict \<Rightarrow> 'k \<Rightarrow> 'v \<Rightarrow> 'v" where
  "dict_get d k dflt = (case map_of d k of Some v \<Rightarrow> v | None \<Rightarrow> dflt)"

fun evaluate_strength :: "ProofNode \<Rightarrow> double" where
  "evaluate_strength (ProofNode i c s pt ch cr) =
     (let base = float_lit 1;
          base = fmul base (dict_get weight_map pt (float_lit (1 / 10)));
          base = fadd base (fmul (py_sum (map evaluate_strength ch)) (float_lit (5 / 10)))
      in py_round base 3)"

text \<open>The values a view holds, and \<open>to_dict\<close>: a dictionary in the order of the source.\<close>

datatype pyval = VStr pystr | VFloat double | VList "pyval list" | VDict "(pystr, pyval) dict"

fun to_dict :: "ProofNode \<Rightarrow> pyval" where
  "to_dict (ProofNode i c s pt ch cr) =
     VDict [(str ''id'', VStr i),
            (str ''claim'', VStr c),
            (str ''source'', VStr s),
            (str ''proof_type'', VStr pt),
            (str ''created'', VStr cr),
            (str ''strength'', VFloat (evaluate_strength (ProofNode i c s pt ch cr))),
            (str ''children'', VList (map to_dict ch))]"

section \<open>The strength formula and the depth of a view\<close>

text \<open>
  The formula of the specification, to compare \<open>evaluate_strength\<close> with: the weight table
  with its default, and \<open>round(weight + 0.5 * sum of the children's strengths, 3)\<close> at every
  node, the operations being those of Python floats.
\<close>

definition spec_weight :: "pystr \<Rightarrow> double" where
  "spec_weight pt =
     (if pt = str ''experiment'' then float_lit 1
      else if pt = str ''observation'' then float_lit (8 / 10)
      else if pt = str ''text'' then float_lit (6 / 10)
      else if pt = str ''tradition'' then float_lit (4 / 10)
      else if pt = str ''opinion'' then float_lit (2 / 10)
      else float_lit (1 / 10))"

fun spec_strength :: "ProofNode \<Rightarrow> double" where
  "spec_strength (ProofNode i c s pt ch cr) =
     py_round
       (fadd (spec_weight pt) (fmul (float_lit (5 / 10)) (py_sum (map spec_strength ch)))) 3"

text \<open>
  The depth of a tree counts the nodes on its longest path from the root; the depth of a
  view counts the dictionaries nested in one another.
\<close>

fun depth :: "ProofNode \<Rightarrow> nat" where
  "depth (ProofNode i c s pt ch cr) = Suc (foldr max (map depth ch) 0)"

fun dict_depth :: "pyval \<Rightarrow> nat" where
  "dict_depth (VStr s) = 0"
| "dict_depth (VFloat x) = 0"
| "dict_depth (VList vs) = foldr max (map dict_depth vs) 0"
| "dict_depth (VDict d) = Suc (foldr max (map (\<lambda>kv. dict_depth (snd kv)) d) 0)"

section \<open>Encoding and hashing: auxiliary facts\<close>

lemma utf8_char_ok: "(\<exists>bs. utf8_char c = Inr bs) = (c < 0x110000 \<and> \<not> (0xD800 \<le> c \<and> c \<le> 0xDFFF))"
  by (auto simp: utf8_char_def)

lemma encode_ok: "(\<exists>bs. encode s = Inr bs) = encodable s"
proof (induction s)
  case Nil
  show ?case by (simp add: encodable_def)
next
  case (Cons c cs)
  have "(\<exists>bs. encode (c # cs) = Inr bs) = ((\<exists>bs. utf8_char c = Inr bs) \<and> (\<exists>bs. encode cs = Inr bs))"
    by (auto split: sum.splits)
  then show ?case
    using Cons utf8_char_ok [of c] by (simp add: encodable_def)
qed

lemma encodable_append: "encodable (a @ b) = (encodable a \<and> encodable b)"
  by (simp add: encodable_def)

lemma length_round256: "length (round256 st kw) = length st"
  by (cases "(st, kw)" rule: round256.cases) (simp_all add: Let_def)

lemma length_foldl_round256: "length (foldl round256 st kws) = length st"
  by (induction kws arbitrary: st) (simp_all add: length_round256)

lemma length_compress: "length (compress hs blk) = length hs"
  by (simp add: compress_def length_foldl_round256)

lemma length_blocks: "length (blocks n hs bs) = length hs"
  by (induction n arbitrary: hs bs) (simp_all add: length_compress)

lemma length_concat_const: "(\<And>x. x \<in> set xs \<Longrightarrow> length (f x) = k) \<Longrightarrow> length (concat (map f xs)) = k * length xs"
  by (induction xs) simp_all

lemma length_sha256: "length (sha256 m) = 32"
proof -
  have "length (sha256 m) = 4 * length (blocks (length (pad m) div 64) H256 (pad m))"
    unfolding sha256_def Let_def by (rule length_concat_const) (simp add: be_bytes_def)
  then show ?thesis by (simp add: length_blocks H256_def)
qed

lemma length_hexdigest: "length (hexdigest bs) = 2 * length bs"
  unfolding hexdigest_def by (rule length_concat_const) simp

lemma hex_digit_lower: "n < 16 \<Longrightarrow> hex_digit n \<in> set (str ''0123456789abcdef'')"
  by (simp add: hex_digit_def str_def) arith

lemma set_hexdigest: "set (hexdigest bs) \<subseteq> set (str ''0123456789abcdef'')"
proof -
  have "unat b div 16 < 16 \<and> unat b mod 16 < 16" for b :: byte
  proof -
    have "unat b < 2 ^ 8" using unsigned_less [of b] by simp
    then show ?thesis by simp
  qed
  then show ?thesis
    unfolding hexdigest_def using hex_digit_lower by auto
qed

lemma dict_setitem_absent: "\<not> dict_contains d k \<Longrightarrow> dict_setitem d k v = d @ [(k, v)]"
  by (induction d) (auto simp: dict_contains_def)

section \<open>The knowledge base: properties\<close>

lemma add_entry_present: "dict_contains (entries kb) (fingerprint e) \<Longrightarrow> add_entry kb e = kb"
  by (simp add: add_entry_def)

lemma add_entry_absent:
  "\<not> dict_contains (entries kb) (fingerprint e) \<Longrightarrow>
     add_entry kb e = kb\<lparr>entries := entries kb @ [(fingerprint e, e)]\<rparr>"
  by (simp add: add_entry_def dict_setitem_absent)

lemma map_of_append_absent: "\<not> dict_contains d k \<Longrightarrow> map_of (d @ [(k, v)]) k = Some v"
  by (simp add: dict_contains_def map_add_def map_of_eq_None_iff [THEN iffD2])

lemma dict_contains_append: "dict_contains (d @ [(k, v)]) k"
  by (simp add: dict_contains_def)

lemma constructed_same_fingerprint:
  "constructed e1 \<Longrightarrow> constructed e2 \<Longrightarrow> content e1 = content e2 \<Longrightarrow> source e1 = source e2
     \<Longrightarrow> fingerprint e1 = fingerprint e2"
  by (simp add: constructed_def compute_fingerprint_def)

lemma init_constructed:
  "KnowledgeEntry_init u now c s ts = Inr e \<Longrightarrow>
     constructed e \<and> content e = c \<and> source e = s \<and> tags e = ts \<and> entry_id e = u \<and> timestamp e = now"
  by (auto simp: KnowledgeEntry_init_def constructed_def compute_fingerprint_def Let_def
      split: sum.splits)

lemma kb_inv_init: "kb_inv KnowledgeBase_init"
  by (simp add: kb_inv_def KnowledgeBase_init_def)

lemma kb_inv_add_entry: "kb_inv kb \<Longrightarrow> constructed e \<Longrightarrow> kb_inv (add_entry kb e)"
  by (cases "dict_contains (entries kb) (fingerprint e)")
     (auto simp: add_entry_present add_entry_absent kb_inv_def dict_contains_def)

lemma added_snoc: "added (cs @ [c]) = added cs @ (case c of AddEntry e \<Rightarrow> [e] | _ \<Rightarrow> [])"
  by (simp add: added_def)

lemma run_snoc: "run (cs @ [c]) = fst (call (run cs) c)"
  by (simp add: run_def)

lemma kb_inv_run: "\<forall>e \<in> set (added cs). constructed e \<Longrightarrow> kb_inv (run cs)"
proof (induction cs rule: rev_induct)
  case Nil
  show ?case by (simp add: run_def kb_inv_init)
next
  case (snoc c cs)
  then have "kb_inv (run cs)" by (simp add: added_snoc)
  with snoc.prems show ?case
    by (cases c) (simp_all add: run_snoc added_snoc kb_inv_add_entry)
qed

lemma call_grows: "\<exists>new. entries (fst (call kb c)) = entries kb @ new"
proof (cases c)
  case (AddEntry e)
  then show ?thesis
    by (cases "dict_contains (entries kb) (fingerprint e)")
       (simp_all add: add_entry_present add_entry_absent)
qed simp_all

lemma run_grows: "\<exists>new. entries (run (cs @ cs')) = entries (run cs) @ new"
proof (induction cs' rule: rev_induct)
  case Nil
  show ?case by simp
next
  case (snoc c cs')
  then obtain new where n: "entries (run (cs @ cs')) = entries (run cs) @ new" by blast
  obtain new' where "entries (fst (call (run (cs @ cs')) c)) = entries (run (cs @ cs')) @ new'"
    using call_grows by blast
  with n have "entries (run ((cs @ cs') @ [c])) = entries (run cs) @ (new @ new')"
    by (simp only: run_snoc) simp
  then show ?case by (metis append_assoc)
qed

lemma kb_inv_pairs:
  assumes "kb_inv kb"
  shows "distinct (map (\<lambda>e. (content e, source e)) (all_entries kb))"
proof -
  have key: "map (\<lambda>p. Inr (fst p)) (entries kb) = map (\<lambda>p. fp_of (content (snd p), source (snd p))) (entries kb)"
    using assms
    by (auto simp: kb_inv_def constructed_def compute_fingerprint_def fp_of_def)
  have "distinct (map (\<lambda>p. (Inr (fst p) :: error + pystr)) (entries kb))"
    using assms by (simp add: kb_inv_def distinct_map inj_on_def)
  then have "distinct (map (fp_of \<circ> (\<lambda>p. (content (snd p), source (snd p)))) (entries kb))"
    by (simp add: key comp_def)
  then have "distinct (map (\<lambda>p. (content (snd p), source (snd p))) (entries kb))"
    by (metis distinct_map inj_on_imageI2)
  then show ?thesis
    by (simp add: all_entries_def dict_values_def comp_def)
qed

section \<open>Floats: rounding to binary64\<close>

lemma pow2_powi: "pow2 e = 2 powi e"
  by (simp add: pow2_def power_int_def field_simps)

lemma pow2_pos: "0 < pow2 e"
  by (simp add: pow2_powi zero_less_power_int)

lemma pow2_add: "pow2 (a + b) = pow2 a * pow2 b"
  by (simp add: pow2_powi power_int_add)

lemma pow2_mono: "a \<le> b \<Longrightarrow> pow2 a \<le> pow2 b"
  by (simp add: pow2_powi power_int_increasing)

lemma pow2_strict_mono: "a < b \<Longrightarrow> pow2 a < pow2 b"
  by (simp add: pow2_powi power_int_strict_increasing)

lemma pow2_nat: "0 \<le> e \<Longrightarrow> pow2 e = 2 ^ nat e"
  by (simp add: pow2_def)

lemma pow2_neg: "e \<le> 0 \<Longrightarrow> pow2 e = 1 / 2 ^ nat (- e)"
  by (cases "e = 0") (simp_all add: pow2_def)

lemma pow2_less_iff: "pow2 a < pow2 b \<longleftrightarrow> a < b"
  by (metis pow2_mono pow2_strict_mono not_less)

lemma pow2_le_iff: "pow2 a \<le> pow2 b \<longleftrightarrow> a \<le> b"
  by (metis pow2_mono pow2_strict_mono not_less)

lemma ilog2_bounds_ge1:
  assumes "1 \<le> q"
  shows "pow2 (ilog2 q) \<le> q \<and> q < pow2 (ilog2 q + 1)"
proof -
  let ?n = "\<lfloor>q\<rfloor>"
  have n: "0 < ?n" using assms by simp
  have b: "2 ^ nat (bitlen ?n - 1) \<le> ?n \<and> ?n < 2 ^ nat (bitlen ?n)"
    using bitlen_bounds [OF n] .
  have b1: "1 \<le> bitlen ?n" using n by (simp add: bitlen_alt_def)
  have e: "ilog2 q = bitlen ?n - 1" using assms by (simp add: ilog2_def)
  have "(2::rat) ^ nat (bitlen ?n - 1) = of_int (2 ^ nat (bitlen ?n - 1))" by simp
  also have "\<dots> \<le> of_int ?n" using b by (simp only: of_int_le_iff)
  also have "\<dots> \<le> q" by simp
  finally have lo: "pow2 (ilog2 q) \<le> q" using b1 by (simp add: e pow2_nat)
  have "?n + 1 \<le> 2 ^ nat (bitlen ?n)" using b by simp
  then have "(of_int (?n + 1) :: rat) \<le> of_int (2 ^ nat (bitlen ?n))"
    by (simp only: of_int_le_iff)
  moreover have "q < of_int (?n + 1)" by linarith
  ultimately have "q < 2 ^ nat (bitlen ?n)" by simp
  then have hi: "q < pow2 (ilog2 q + 1)" using b1 by (simp add: e pow2_nat)
  show ?thesis using lo hi by simp
qed

lemma ilog2_bounds_lt1:
  assumes "0 < q" "q < 1"
  shows "pow2 (ilog2 q) \<le> q \<and> q < pow2 (ilog2 q + 1)"
proof -
  let ?c = "\<lceil>1 / q\<rceil>"
  let ?k = "bitlen (?c - 1)"
  have inv: "1 < 1 / q" using assms by simp
  then have c2: "2 \<le> ?c" by (simp add: le_ceiling_iff)
  then have n: "0 < ?c - 1" by simp
  have b: "2 ^ nat (?k - 1) \<le> ?c - 1 \<and> ?c - 1 < 2 ^ nat ?k"
    using bitlen_bounds [OF n] .
  have k1: "1 \<le> ?k" using n by (simp add: bitlen_alt_def)
  have e: "ilog2 q = - ?k" using assms by (simp add: ilog2_def)
  have "?c \<le> 2 ^ nat ?k" using b by simp
  then have B: "(of_int ?c :: rat) \<le> 2 ^ nat ?k"
    by (metis of_int_le_iff of_int_numeral of_int_power)
  have A: "1 / q \<le> of_int ?c" by (rule le_of_int_ceiling)
  from A B have "1 / q \<le> 2 ^ nat ?k" by (rule order_trans)
  then have "1 \<le> 2 ^ nat ?k * q" using assms by (simp add: field_simps)
  then have "1 / 2 ^ nat ?k \<le> q" by (simp add: field_simps)
  then have lo: "pow2 (ilog2 q) \<le> q" using k1 by (simp add: e pow2_neg)
  have C: "(2 ^ nat (?k - 1) :: rat) \<le> of_int (?c - 1)"
    using b by (metis of_int_le_iff of_int_numeral of_int_power)
  have D: "(of_int (?c - 1) :: rat) < 1 / q"
    using ceiling_correct [of "1 / q"] by simp
  from C D have "2 ^ nat (?k - 1) < 1 / q" by (rule le_less_trans)
  then have "2 ^ nat (?k - 1) * q < 1" using assms by (simp add: field_simps)
  then have "q < 1 / 2 ^ nat (?k - 1)" by (simp add: field_simps)
  moreover have "pow2 (ilog2 q + 1) = 1 / 2 ^ nat (?k - 1)"
    using k1 by (simp add: e pow2_neg)
  ultimately have hi: "q < pow2 (ilog2 q + 1)" by simp
  show ?thesis using lo hi by simp
qed

lemma ilog2_bounds: "0 < q \<Longrightarrow> pow2 (ilog2 q) \<le> q \<and> q < pow2 (ilog2 q + 1)"
  using ilog2_bounds_ge1 [of q] ilog2_bounds_lt1 [of q] by (cases "1 \<le> q") simp_all

lemma ilog2_unique:
  assumes "pow2 e \<le> q" "q < pow2 (e + 1)"
  shows "ilog2 q = e"
proof -
  have q: "0 < q" using assms(1) pow2_pos [of e] by simp
  have b: "pow2 (ilog2 q) \<le> q \<and> q < pow2 (ilog2 q + 1)" using ilog2_bounds [OF q] .
  have "pow2 e < pow2 (ilog2 q + 1)" using assms b by simp
  then have 1: "e < ilog2 q + 1" by (simp add: pow2_less_iff)
  have "pow2 (ilog2 q) < pow2 (e + 1)" using assms b by simp
  then have 2: "ilog2 q < e + 1" by (simp add: pow2_less_iff)
  show ?thesis using 1 2 by simp
qed

lemma ilog2_mono:
  assumes "0 < a" "a \<le> b"
  shows "ilog2 a \<le> ilog2 b"
proof -
  have "pow2 (ilog2 a) \<le> a" using ilog2_bounds [OF assms(1)] by simp
  moreover have "b < pow2 (ilog2 b + 1)" using ilog2_bounds [of b] assms by simp
  ultimately have "pow2 (ilog2 a) < pow2 (ilog2 b + 1)" using assms by simp
  then show ?thesis by (simp add: pow2_less_iff)
qed

lemma rhe_cases: "round_half_even q = \<lfloor>q\<rfloor> \<or> round_half_even q = \<lfloor>q\<rfloor> + 1"
  by (simp add: round_half_even_def Let_def)

lemma rhe_of_int: "round_half_even (of_int n) = n"
  by (simp add: round_half_even_def)

lemma rhe_ge: "of_int n \<le> q \<Longrightarrow> n \<le> round_half_even q"
proof -
  assume "of_int n \<le> q"
  then have "n \<le> \<lfloor>q\<rfloor>" by (simp add: le_floor_iff)
  then show ?thesis using rhe_cases [of q] by auto
qed

lemma rhe_le: "q \<le> of_int n \<Longrightarrow> round_half_even q \<le> n"
proof (cases "q = of_int n")
  case True
  then show ?thesis by (simp add: rhe_of_int)
next
  case False
  assume "q \<le> of_int n"
  with False have "q < of_int n" by simp
  then have "\<lfloor>q\<rfloor> < n" by (simp add: floor_less_iff)
  then show ?thesis using rhe_cases [of q] by auto
qed

lemma pow2_52: "pow2 52 = 2 ^ 52"
  by (simp add: pow2_def)

lemma pow2_53: "pow2 53 = 2 ^ 53"
  by (simp add: pow2_def)

lemma ulp_exp_pos: "0 < q \<Longrightarrow> ulp_exp q = max (ilog2 q) (- 1022) - 52"
  by (simp add: ulp_exp_def)

lemma ulp_exp_ge: "- 1074 \<le> ulp_exp q"
  by (simp add: ulp_exp_def)

lemma ulp_exp_mono: "0 < a \<Longrightarrow> a \<le> b \<Longrightarrow> ulp_exp a \<le> ulp_exp b"
  using ilog2_mono [of a b] by (simp add: ulp_exp_pos)

lemma scaled_less:
  assumes "0 < q"
  shows "q / pow2 (ulp_exp q) < 2 ^ 53"
proof -
  have "ilog2 q + 1 \<le> ulp_exp q + 53" using assms by (simp add: ulp_exp_pos)
  then have "pow2 (ilog2 q + 1) \<le> pow2 (ulp_exp q + 53)" by (rule pow2_mono)
  moreover have "q < pow2 (ilog2 q + 1)" using ilog2_bounds [OF assms] by simp
  ultimately have "q < pow2 (ulp_exp q) * 2 ^ 53" by (simp add: pow2_add pow2_53)
  then show ?thesis using pow2_pos [of "ulp_exp q"] by (simp add: pos_divide_less_eq mult.commute)
qed

lemma scaled_ge:
  assumes "0 < q" "- 1022 \<le> ilog2 q"
  shows "2 ^ 52 \<le> q / pow2 (ulp_exp q)"
proof -
  have "ulp_exp q + 52 = ilog2 q" using assms by (simp add: ulp_exp_pos)
  then have "pow2 (ilog2 q) = pow2 (ulp_exp q + 52)" by simp
  then have "pow2 (ulp_exp q) * 2 ^ 52 = pow2 (ilog2 q)"
    by (simp only: pow2_add pow2_52)
  moreover have "pow2 (ilog2 q) \<le> q" using ilog2_bounds [OF assms(1)] by simp
  ultimately have "pow2 (ulp_exp q) * 2 ^ 52 \<le> q" by simp
  then show ?thesis using pow2_pos [of "ulp_exp q"] by (simp add: pos_le_divide_eq mult.commute)
qed

text \<open>The rounded value of a positive rational, before the overflow test.\<close>

lemma round64_pos:
  assumes "0 < q"
  shows "round64 q =
    (if 2 ^ 1024 \<le> of_int (round_half_even (q / pow2 (ulp_exp q))) * pow2 (ulp_exp q)
     then PInf else Fin (of_int (round_half_even (q / pow2 (ulp_exp q))) * pow2 (ulp_exp q)))"
proof -
  have "0 \<le> q / pow2 (ulp_exp q)" using assms pow2_pos [of "ulp_exp q"] by simp
  then have "0 \<le> round_half_even (q / pow2 (ulp_exp q))"
    using rhe_ge [of 0 "q / pow2 (ulp_exp q)"] by simp
  then have "0 \<le> of_int (round_half_even (q / pow2 (ulp_exp q))) * pow2 (ulp_exp q)"
    using pow2_pos [of "ulp_exp q"] by simp
  then show ?thesis using assms by (simp add: round64_def Let_def)
qed

lemma rhe_near:
  assumes "of_int n - 1 / 2 < x" "x < of_int n + 1 / 2"
  shows "round_half_even x = n"
proof -
  have f: "of_int \<lfloor>x\<rfloor> \<le> x \<and> x < of_int \<lfloor>x\<rfloor> + 1" by (simp add: floor_correct) linarith
  have "(of_int \<lfloor>x\<rfloor> :: rat) < of_int n + 1 / 2" using f assms by linarith
  then have "(of_int \<lfloor>x\<rfloor> :: rat) < of_int (n + 1)" by simp
  then have u: "\<lfloor>x\<rfloor> < n + 1" by (simp only: of_int_less_iff)
  have "(of_int n :: rat) - 1 / 2 < of_int \<lfloor>x\<rfloor> + 1" using f assms by linarith
  then have "(of_int (n - 2) :: rat) < of_int \<lfloor>x\<rfloor>" by simp
  then have l: "n - 2 < \<lfloor>x\<rfloor>" by (simp only: of_int_less_iff)
  from u l consider "\<lfloor>x\<rfloor> = n" | "\<lfloor>x\<rfloor> = n - 1" by linarith
  then show ?thesis
  proof cases
    case 1
    then show ?thesis using assms by (simp add: round_half_even_def Let_def)
  next
    case 2
    then show ?thesis using assms by (simp add: round_half_even_def Let_def)
  qed
qed

lemma rhe_tie:
  assumes "x = of_int n + 1 / 2"
  shows "round_half_even x = (if even n then n else n + 1)"
proof -
  have "\<lfloor>x\<rfloor> = n" using assms by (simp add: floor_unique)
  then show ?thesis using assms by (simp add: round_half_even_def Let_def)
qed

lemma round64_nonneg: "0 \<le> q \<Longrightarrow> fle (Fin 0) (round64 q)"
proof (cases "q = 0")
  case True
  then show ?thesis by (simp add: round64_def)
next
  case False
  assume "0 \<le> q"
  with False have q: "0 < q" by simp
  have "0 \<le> q / pow2 (ulp_exp q)" using q pow2_pos [of "ulp_exp q"] by simp
  then have "0 \<le> round_half_even (q / pow2 (ulp_exp q))"
    using rhe_ge [of 0 "q / pow2 (ulp_exp q)"] by simp
  then have "0 \<le> of_int (round_half_even (q / pow2 (ulp_exp q))) * pow2 (ulp_exp q)"
    using pow2_pos [of "ulp_exp q"] by simp
  then show ?thesis by (simp add: round64_pos [OF q])
qed

lemma round64_fixed:
  assumes "0 < c" "round64 c = Fin c"
  shows "c / pow2 (ulp_exp c) = of_int (round_half_even (c / pow2 (ulp_exp c)))"
proof -
  have "c = of_int (round_half_even (c / pow2 (ulp_exp c))) * pow2 (ulp_exp c)"
    using assms(2) by (simp add: round64_pos [OF assms(1)] split: if_splits)
  then have "c / pow2 (ulp_exp c) =
      of_int (round_half_even (c / pow2 (ulp_exp c))) * pow2 (ulp_exp c) / pow2 (ulp_exp c)"
    by simp
  then show ?thesis using pow2_pos [of "ulp_exp c"] by simp
qed

lemma round64_ge:
  assumes "0 < c" "round64 c = Fin c" "c \<le> q"
  shows "fle (Fin c) (round64 q)"
proof -
  define pc where "pc = ulp_exp c"
  define pq where "pq = ulp_exp q"
  define nc where "nc = round_half_even (c / pow2 pc)"
  define nq where "nq = round_half_even (q / pow2 pq)"
  have q: "0 < q" using assms by simp
  have cn: "c / pow2 pc = of_int nc"
    using round64_fixed [OF assms(1,2)] by (simp add: pc_def nc_def)
  then have c_eq: "c = of_int nc * pow2 pc" using pow2_pos [of pc] by (simp add: field_simps)
  have le: "pc \<le> pq" using ulp_exp_mono [OF assms(1,3)] by (simp add: pc_def pq_def)
  have key: "c \<le> of_int nq * pow2 pq"
  proof (cases "pc = pq")
    case True
    have "c / pow2 pq \<le> q / pow2 pq" using assms(3) pow2_pos [of pq] by (simp add: divide_right_mono)
    then have "of_int nc \<le> q / pow2 pq" using cn True by simp
    then have "nc \<le> nq" unfolding nq_def by (rule rhe_ge)
    then have "(of_int nc :: rat) \<le> of_int nq" by simp
    then have "of_int nc * pow2 pq \<le> of_int nq * pow2 pq"
      using pow2_pos [of pq] by (simp add: mult_right_mono)
    then show ?thesis using c_eq True by simp
  next
    case False
    with le have lt: "pc < pq" by simp
    then have m: "max (ilog2 c) (- 1022) < max (ilog2 q) (- 1022)"
      using assms(1) q by (simp add: pc_def pq_def ulp_exp_pos)
    then have n1: "- 1022 \<le> ilog2 q" and n2: "ilog2 c + 1 \<le> ilog2 q" by auto
    have pq52: "pq + 52 = ilog2 q" using q n1 by (simp add: pq_def ulp_exp_pos)
    have "(2 ^ 52 :: rat) \<le> q / pow2 pq" using scaled_ge [OF q n1] by (simp add: pq_def)
    then have "of_int (2 ^ 52) \<le> q / pow2 pq" by simp
    then have "2 ^ 52 \<le> nq" unfolding nq_def by (rule rhe_ge)
    then have "(of_int (2 ^ 52) :: rat) \<le> of_int nq" by (simp only: of_int_le_iff)
    then have "(2 ^ 52 :: rat) \<le> of_int nq" by simp
    then have "2 ^ 52 * pow2 pq \<le> of_int nq * pow2 pq"
      using pow2_pos [of pq] by (simp add: mult_right_mono)
    moreover have "2 ^ 52 * pow2 pq = pow2 (ilog2 q)"
      using pq52 [symmetric] by (simp only: pow2_add pow2_52 mult.commute)
    moreover have "pow2 (ilog2 c + 1) \<le> pow2 (ilog2 q)" using n2 by (rule pow2_mono)
    moreover have "c < pow2 (ilog2 c + 1)" using ilog2_bounds [OF assms(1)] by simp
    ultimately show ?thesis by simp
  qed
  show ?thesis
    using key by (simp add: round64_pos [OF q] pq_def nq_def)
qed

lemma pow2_diff: "pow2 (a - b) * pow2 b = pow2 a"
  using pow2_add [of "a - b" b] by simp

lemma round64_of_grid:
  assumes "0 < r" "r / pow2 (ulp_exp r) = of_int m" "r < 2 ^ 1024"
  shows "round64 r = Fin r"
proof -
  have "of_int m * pow2 (ulp_exp r) = r"
    using assms(2) pow2_pos [of "ulp_exp r"] by (simp add: field_simps)
  then show ?thesis
    using assms(3) by (simp add: round64_pos [OF assms(1)] assms(2) rhe_of_int)
qed

lemma round64_idem_pos:
  assumes "0 < q" "round64 q = Fin r"
  shows "round64 r = Fin r \<and> 0 \<le> r"
proof -
  define pq where "pq = ulp_exp q"
  define nq where "nq = round_half_even (q / pow2 pq)"
  define em where "em = max (ilog2 q) (- 1022)"
  have pq_em: "pq = em - 52" using assms(1) by (simp add: pq_def em_def ulp_exp_pos)
  have r_eq: "r = of_int nq * pow2 pq" and r_lt: "r < 2 ^ 1024"
    using assms(2) by (simp_all add: round64_pos [OF assms(1)] pq_def nq_def split: if_splits)
  have "0 \<le> q / pow2 pq" using assms(1) pow2_pos [of pq] by simp
  then have nq0: "0 \<le> nq" unfolding nq_def using rhe_ge [of 0 "q / pow2 pq"] by simp
  have "q / pow2 pq \<le> of_int (2 ^ 53)" using scaled_less [OF assms(1)] by (simp add: pq_def)
  then have nq53: "nq \<le> 2 ^ 53" unfolding nq_def by (rule rhe_le)
  show ?thesis
  proof (cases "nq = 0")
    case True
    then show ?thesis by (simp add: r_eq round64_def)
  next
    case False
    with nq0 have nqpos: "0 < nq" by simp
    then have rpos: "0 < r" using pow2_pos [of pq] by (simp add: r_eq)
    have "(of_int nq :: rat) \<le> of_int (2 ^ 53)" using nq53 by (simp only: of_int_le_iff)
    then have "(of_int nq :: rat) \<le> 2 ^ 53" by simp
    then have "of_int nq * pow2 pq \<le> 2 ^ 53 * pow2 pq"
      using pow2_pos [of pq] by (simp add: mult_right_mono)
    moreover have "2 ^ 53 * pow2 pq = pow2 (em + 1)"
    proof -
      have "em + 1 = pq + 53" using pq_em by simp
      then show ?thesis by (simp only: pow2_add pow2_53 mult.commute)
    qed
    ultimately have r_le: "r \<le> pow2 (em + 1)" by (simp add: r_eq)
    have em_ge: "- 1022 \<le> em" by (simp add: em_def)
    have "\<exists>m. r / pow2 (ulp_exp r) = of_int m"
    proof (cases "r = pow2 (em + 1)")
      case True
      have "pow2 (em + 1) < pow2 (em + 1 + 1)" by (rule pow2_strict_mono) simp
      then have "ilog2 r = em + 1" using True by (intro ilog2_unique) simp_all
      then have pr: "ulp_exp r = (em + 1) - 52" using rpos em_ge by (simp add: ulp_exp_pos)
      have s: "em + 1 = 52 + ulp_exp r" using pr by simp
      have "pow2 52 * pow2 (ulp_exp r) = pow2 (em + 1)"
        unfolding s by (rule pow2_add [symmetric])
      then have "pow2 52 * pow2 (ulp_exp r) = r" using True by metis
      then have "r / pow2 (ulp_exp r) = pow2 52"
        using pow2_pos [of "ulp_exp r"] by (simp add: field_simps)
      then have "r / pow2 (ulp_exp r) = of_int (2 ^ 52)" by (simp add: pow2_52)
      then show ?thesis by blast
    next
      case False
      with r_le have "r < pow2 (em + 1)" by simp
      moreover have "pow2 (ilog2 r) \<le> r" using ilog2_bounds [OF rpos] by simp
      ultimately have "pow2 (ilog2 r) < pow2 (em + 1)" by simp
      then have "ilog2 r < em + 1" by (simp add: pow2_less_iff)
      then have le: "ulp_exp r \<le> pq" using rpos em_ge by (simp add: ulp_exp_pos pq_em)
      have "pow2 (pq - ulp_exp r) = 2 ^ nat (pq - ulp_exp r)" using le by (simp add: pow2_nat)
      then have "pow2 (pq - ulp_exp r) = of_int (2 ^ nat (pq - ulp_exp r))" by simp
      moreover have "r = of_int nq * (pow2 (pq - ulp_exp r) * pow2 (ulp_exp r))"
        by (simp only: pow2_diff r_eq)
      ultimately have "r = of_int (nq * 2 ^ nat (pq - ulp_exp r)) * pow2 (ulp_exp r)"
        by (simp add: mult.assoc)
      then have "r / pow2 (ulp_exp r) =
          of_int (nq * 2 ^ nat (pq - ulp_exp r)) * pow2 (ulp_exp r) / pow2 (ulp_exp r)"
        by simp
      then have "r / pow2 (ulp_exp r) = of_int (nq * 2 ^ nat (pq - ulp_exp r))"
        using pow2_pos [of "ulp_exp r"] by simp
      then show ?thesis by blast
    qed
    then obtain m where "r / pow2 (ulp_exp r) = of_int m" by blast
    with rpos have "round64 r = Fin r" using r_lt by (rule round64_of_grid)
    then show ?thesis using rpos by simp
  qed
qed

lemma round64_idem:
  assumes "0 \<le> q" "round64 q = Fin r"
  shows "round64 r = Fin r \<and> 0 \<le> r"
proof (cases "q = 0")
  case True
  then show ?thesis using assms(2) by (auto simp: round64_def)
next
  case False
  with assms(1) have "0 < q" by simp
  then show ?thesis using assms(2) by (rule round64_idem_pos)
qed

text \<open>A certificate for the rounding of a concrete positive rational.\<close>

lemma round64_cert:
  assumes "pow2 e \<le> q" "q < pow2 (e + 1)" "p = max e (- 1022) - 52"
    and "round_half_even (q / pow2 p) = n" "of_int n * pow2 p < 2 ^ 1024"
  shows "round64 q = Fin (of_int n * pow2 p)"
proof -
  have q: "0 < q" using assms(1) pow2_pos [of e] by simp
  have "ilog2 q = e" using assms(1,2) by (rule ilog2_unique)
  then have "ulp_exp q = p" using q assms(3) by (simp add: ulp_exp_pos)
  then show ?thesis using assms(4,5) by (simp add: round64_pos [OF q])
qed

section \<open>Floats: the literals of the source and the lower bound of a strength\<close>

lemma lit_1: "float_lit 1 = Fin 1"
  unfolding float_lit_def
  using round64_cert [of 0 1 "- 52" "2 ^ 52"]
  by (simp add: pow2_def rhe_of_int [of "2 ^ 52", simplified])

lemma lit_half: "float_lit (5 / 10) = Fin (1 / 2)"
  unfolding float_lit_def
  using round64_cert [of "- 1" "5 / 10" "- 53" "2 ^ 52"]
  by (simp add: pow2_def rhe_of_int [of "2 ^ 52", simplified])

lemma lit_08: "float_lit (8 / 10) = Fin (3602879701896397 / 4503599627370496)"
proof -
  have r: "round_half_even (8 / 10 / pow2 (- 53)) = 7205759403792794"
    by (rule rhe_near) (simp_all add: pow2_def)
  show ?thesis
    unfolding float_lit_def
    using round64_cert [of "- 1" "8 / 10" "- 53" 7205759403792794, OF _ _ _ r]
    by (simp add: pow2_def)
qed

lemma lit_06: "float_lit (6 / 10) = Fin (5404319552844595 / 9007199254740992)"
proof -
  have r: "round_half_even (6 / 10 / pow2 (- 53)) = 5404319552844595"
    by (rule rhe_near) (simp_all add: pow2_def)
  show ?thesis
    unfolding float_lit_def
    using round64_cert [of "- 1" "6 / 10" "- 53" 5404319552844595, OF _ _ _ r]
    by (simp add: pow2_def)
qed

lemma lit_04: "float_lit (4 / 10) = Fin (3602879701896397 / 9007199254740992)"
proof -
  have r: "round_half_even (4 / 10 / pow2 (- 54)) = 7205759403792794"
    by (rule rhe_near) (simp_all add: pow2_def)
  show ?thesis
    unfolding float_lit_def
    using round64_cert [of "- 2" "4 / 10" "- 54" 7205759403792794, OF _ _ _ r]
    by (simp add: pow2_def)
qed

lemma lit_02: "float_lit (2 / 10) = Fin (3602879701896397 / 18014398509481984)"
proof -
  have r: "round_half_even (2 / 10 / pow2 (- 55)) = 7205759403792794"
    by (rule rhe_near) (simp_all add: pow2_def)
  show ?thesis
    unfolding float_lit_def
    using round64_cert [of "- 3" "2 / 10" "- 55" 7205759403792794, OF _ _ _ r]
    by (simp add: pow2_def)
qed

lemma lit_01: "float_lit (1 / 10) = Fin (3602879701896397 / 36028797018963968)"
proof -
  have r: "round_half_even (1 / 10 / pow2 (- 56)) = 7205759403792794"
    by (rule rhe_near) (simp_all add: pow2_def)
  show ?thesis
    unfolding float_lit_def
    using round64_cert [of "- 4" "1 / 10" "- 56" 7205759403792794, OF _ _ _ r]
    by (simp add: pow2_def)
qed

text \<open>The same literals with the fraction in lowest terms, as the simplifier writes them.\<close>

lemma lit_half_n: "float_lit (1 / 2) = Fin (1 / 2)"
  using lit_half by simp

lemma lit_08_n: "float_lit (4 / 5) = Fin (3602879701896397 / 4503599627370496)"
  using lit_08 by simp

lemma lit_06_n: "float_lit (3 / 5) = Fin (5404319552844595 / 9007199254740992)"
  using lit_06 by simp

lemma lit_04_n: "float_lit (2 / 5) = Fin (3602879701896397 / 9007199254740992)"
  using lit_04 by simp

lemma lit_02_n: "float_lit (1 / 5) = Fin (3602879701896397 / 18014398509481984)"
  using lit_02 by simp

lemmas lits = lit_1 lit_half lit_08 lit_06 lit_04 lit_02 lit_01
  lit_half_n lit_08_n lit_06_n lit_04_n lit_02_n

lemma float_lit_fixed:
  assumes "0 \<le> q" "float_lit q = Fin w"
  shows "round64 w = Fin w \<and> 0 \<le> w"
  using assms round64_idem [of q w] by (simp add: float_lit_def)

lemma weight_cases:
  "dict_get weight_map pt (float_lit (1 / 10)) = float_lit 1 \<or>
   dict_get weight_map pt (float_lit (1 / 10)) = float_lit (8 / 10) \<or>
   dict_get weight_map pt (float_lit (1 / 10)) = float_lit (6 / 10) \<or>
   dict_get weight_map pt (float_lit (1 / 10)) = float_lit (4 / 10) \<or>
   dict_get weight_map pt (float_lit (1 / 10)) = float_lit (2 / 10) \<or>
   dict_get weight_map pt (float_lit (1 / 10)) = float_lit (1 / 10)"
  by (simp add: dict_get_def weight_map_def)

lemma weight_fixed:
  "\<exists>w. dict_get weight_map pt (float_lit (1 / 10)) = Fin w \<and>
       3602879701896397 / 36028797018963968 \<le> w \<and> round64 w = Fin w"
proof -
  have f1: "round64 1 = Fin 1"
    using float_lit_fixed [OF _ lit_1] by simp
  have f08: "round64 (3602879701896397 / 4503599627370496) = Fin (3602879701896397 / 4503599627370496)"
    using float_lit_fixed [OF _ lit_08] by simp
  have f06: "round64 (5404319552844595 / 9007199254740992) = Fin (5404319552844595 / 9007199254740992)"
    using float_lit_fixed [OF _ lit_06] by simp
  have f04: "round64 (3602879701896397 / 9007199254740992) = Fin (3602879701896397 / 9007199254740992)"
    using float_lit_fixed [OF _ lit_04] by simp
  have f02: "round64 (3602879701896397 / 18014398509481984) = Fin (3602879701896397 / 18014398509481984)"
    using float_lit_fixed [OF _ lit_02] by simp
  have f01: "round64 (3602879701896397 / 36028797018963968) = Fin (3602879701896397 / 36028797018963968)"
    using float_lit_fixed [OF _ lit_01] by simp
  have aux: "\<exists>w. x = Fin w \<and> 3602879701896397 / 36028797018963968 \<le> w \<and> round64 w = Fin w"
    if "x = float_lit q" "float_lit q = Fin w" "round64 w = Fin w"
      "3602879701896397 / 36028797018963968 \<le> w" for x q w
    using that by metis
  from weight_cases [of pt] show ?thesis
  proof (elim disjE)
    assume a: "dict_get weight_map pt (float_lit (1 / 10)) = float_lit 1"
    show ?thesis by (rule aux [OF a lit_1 f1]) simp
  next
    assume a: "dict_get weight_map pt (float_lit (1 / 10)) = float_lit (8 / 10)"
    show ?thesis by (rule aux [OF a lit_08 f08]) simp
  next
    assume a: "dict_get weight_map pt (float_lit (1 / 10)) = float_lit (6 / 10)"
    show ?thesis by (rule aux [OF a lit_06 f06]) simp
  next
    assume a: "dict_get weight_map pt (float_lit (1 / 10)) = float_lit (4 / 10)"
    show ?thesis by (rule aux [OF a lit_04 f04]) simp
  next
    assume a: "dict_get weight_map pt (float_lit (1 / 10)) = float_lit (2 / 10)"
    show ?thesis by (rule aux [OF a lit_02 f02]) simp
  next
    assume a: "dict_get weight_map pt (float_lit (1 / 10)) = float_lit (1 / 10)"
    show ?thesis by (rule aux [OF a lit_01 f01]) simp
  qed
qed

lemma fle_zero_cases:
  assumes "fle (Fin 0) y"
  obtains b where "y = Fin b" "0 \<le> b" | "y = PInf"
  using assms by (cases y) simp_all

lemma fadd_nonneg: "fle (Fin 0) x \<Longrightarrow> fle (Fin 0) y \<Longrightarrow> fle (Fin 0) (fadd x y)"
  by (cases x; cases y) (simp_all add: round64_nonneg)

lemma foldl_fadd_nonneg:
  "fle (Fin 0) acc \<Longrightarrow> \<forall>x \<in> set xs. fle (Fin 0) x \<Longrightarrow> fle (Fin 0) (foldl fadd acc xs)"
  by (induction xs arbitrary: acc) (simp_all add: fadd_nonneg)

lemma py_sum_nonneg: "\<forall>x \<in> set xs. fle (Fin 0) x \<Longrightarrow> fle (Fin 0) (py_sum xs)"
  unfolding py_sum_def by (rule foldl_fadd_nonneg) simp_all

lemma half_nonneg: "fle (Fin 0) x \<Longrightarrow> fle (Fin 0) (fmul x (float_lit (5 / 10)))"
  by (cases x) (simp_all add: lits round64_nonneg fsgn_def)

lemma tenth_fixed:
  "round64 (3602879701896397 / 36028797018963968) = Fin (3602879701896397 / 36028797018963968)"
  using float_lit_fixed [OF _ lit_01] by simp

lemma fadd_ge_tenth:
  assumes "3602879701896397 / 36028797018963968 \<le> w" "fle (Fin 0) y"
  shows "fle (Fin (3602879701896397 / 36028797018963968)) (fadd (Fin w) y)"
  using assms(2)
proof (cases rule: fle_zero_cases)
  case (1 b)
  have "3602879701896397 / 36028797018963968 \<le> w + b" using assms(1) 1(2) by simp
  then show ?thesis using round64_ge [OF _ tenth_fixed] by (simp add: 1(1))
next
  case 2
  then show ?thesis by simp
qed

lemma py_round_ge_tenth:
  assumes "fle (Fin (3602879701896397 / 36028797018963968)) x"
  shows "fle (Fin (3602879701896397 / 36028797018963968)) (py_round x 3)"
proof (cases x)
  case (Fin q)
  with assms have q: "3602879701896397 / 36028797018963968 \<le> q" by simp
  define n where "n = round_half_even (q * 10 ^ 3)"
  have "of_int 100 \<le> q * 10 ^ 3" using q by simp
  then have n100: "100 \<le> n" unfolding n_def by (rule rhe_ge)
  have r: "py_round x 3 = round64 (of_int n / 10 ^ 3)" by (simp add: Fin py_round_def n_def)
  show ?thesis
  proof (cases "n = 100")
    case True
    then show ?thesis using lit_01 by (simp add: r float_lit_def)
  next
    case False
    with n100 have "101 \<le> n" by simp
    then have "(of_int 101 :: rat) \<le> of_int n" by (simp only: of_int_le_iff)
    then have "3602879701896397 / 36028797018963968 \<le> (of_int n :: rat) / 10 ^ 3" by simp
    then show ?thesis using round64_ge [OF _ tenth_fixed] by (simp add: r)
  qed
next
  case PInf
  then show ?thesis by (simp add: py_round_def)
next
  case NInf
  with assms show ?thesis by simp
next
  case NaN
  with assms show ?thesis by simp
qed

lemma fle_trans_zero:
  "fle (Fin (3602879701896397 / 36028797018963968)) x \<Longrightarrow> fle (Fin 0) x"
  by (cases x) simp_all

lemma strength_ge_tenth:
  "fle (Fin (3602879701896397 / 36028797018963968)) (evaluate_strength n)"
proof (induction n)
  case (ProofNode i c s pt ch cr)
  obtain w where w: "dict_get weight_map pt (float_lit (1 / 10)) = Fin w"
      "3602879701896397 / 36028797018963968 \<le> w" "round64 w = Fin w"
    using weight_fixed by blast
  have "\<forall>x \<in> set (map evaluate_strength ch). fle (Fin 0) x"
    using ProofNode.IH by (auto intro: fle_trans_zero)
  then have "fle (Fin 0) (fmul (py_sum (map evaluate_strength ch)) (float_lit (5 / 10)))"
    by (intro half_nonneg py_sum_nonneg)
  then have "fle (Fin (3602879701896397 / 36028797018963968))
      (fadd (Fin w) (fmul (py_sum (map evaluate_strength ch)) (float_lit (5 / 10))))"
    using w(2) by (intro fadd_ge_tenth)
  then have "fle (Fin (3602879701896397 / 36028797018963968))
      (py_round (fadd (Fin w) (fmul (py_sum (map evaluate_strength ch)) (float_lit (5 / 10)))) 3)"
    by (rule py_round_ge_tenth)
  moreover have "fmul (float_lit 1) (dict_get weight_map pt (float_lit (1 / 10))) = Fin w"
    by (simp add: w(1) w(3) lit_1)
  ultimately show ?case
    by (simp only: evaluate_strength.simps Let_def)
qed

section \<open>Proof trees: concrete float operations and the refinement lemmas\<close>

text \<open>
  Each lemma of \<open>float_ops\<close> is one float operation on concrete operands, certified through
  \<open>round64_cert\<close>: the binade of the exact result and its rounded significand.
\<close>

lemma fmul_1:
  "fmul (Fin 1) (Fin 1) = Fin 1"
proof -
  have r: "round_half_even ((1 * 1) / pow2 (- 52)) = 4503599627370496"
    by (rule rhe_near) (simp_all add: pow2_def)
  have "round64 (1 * 1) = Fin (of_int 4503599627370496 * pow2 (- 52))"
    by (rule round64_cert [of "0" _ "- 52" 4503599627370496, OF _ _ _ r]) (simp_all add: pow2_def)
  then show ?thesis by (simp add: pow2_def)
qed

lemma fmul_3:
  "fmul (Fin 0) (Fin (1 / 2)) = Fin 0"
  by (simp add: round64_def)

lemma fadd_4:
  "fadd (Fin 1) (Fin 0) = Fin 1"
proof -
  have r: "round_half_even ((1 + 0) / pow2 (- 52)) = 4503599627370496"
    by (rule rhe_near) (simp_all add: pow2_def)
  have "round64 (1 + 0) = Fin (of_int 4503599627370496 * pow2 (- 52))"
    by (rule round64_cert [of "0" _ "- 52" 4503599627370496, OF _ _ _ r]) (simp_all add: pow2_def)
  then show ?thesis by (simp add: pow2_def)
qed

lemma py_round_5:
  "py_round (Fin 1) 3 = Fin 1"
proof -
  have k: "round_half_even (1 * 10 ^ 3) = 1000"
    by (rule rhe_near) (simp_all add: pow2_def)
  have r: "round_half_even (of_int 1000 / 10 ^ 3 / pow2 (- 52)) = 4503599627370496"
    by (rule rhe_near) (simp_all add: pow2_def)
  have c: "round64 (of_int 1000 / 10 ^ 3) = Fin (of_int 4503599627370496 * pow2 (- 52))"
    by (rule round64_cert [of "0" _ "- 52" 4503599627370496, OF _ _ _ r]) (simp_all add: pow2_def)
  have v: "of_int 4503599627370496 * pow2 (- 52) = (1 :: rat)"
    by (simp add: pow2_def)
  show ?thesis by (simp only: py_round_def double.case k c v)
qed

lemma fadd_6:
  "fadd (Fin 0) (Fin 1) = Fin 1"
proof -
  have r: "round_half_even ((0 + 1) / pow2 (- 52)) = 4503599627370496"
    by (rule rhe_near) (simp_all add: pow2_def)
  have "round64 (0 + 1) = Fin (of_int 4503599627370496 * pow2 (- 52))"
    by (rule round64_cert [of "0" _ "- 52" 4503599627370496, OF _ _ _ r]) (simp_all add: pow2_def)
  then show ?thesis by (simp add: pow2_def)
qed

lemma fmul_7:
  "fmul (Fin 1) (Fin (5404319552844595 / 9007199254740992)) = Fin (5404319552844595 / 9007199254740992)"
proof -
  have r: "round_half_even ((1 * 5404319552844595 / 9007199254740992) / pow2 (- 53)) = 5404319552844595"
    by (rule rhe_near) (simp_all add: pow2_def)
  have "round64 (1 * 5404319552844595 / 9007199254740992) = Fin (of_int 5404319552844595 * pow2 (- 53))"
    by (rule round64_cert [of "- 1" _ "- 53" 5404319552844595, OF _ _ _ r]) (simp_all add: pow2_def)
  then show ?thesis by (simp add: pow2_def)
qed

lemma fadd_9:
  "fadd (Fin (5404319552844595 / 9007199254740992)) (Fin 0) = Fin (5404319552844595 / 9007199254740992)"
proof -
  have r: "round_half_even ((5404319552844595 / 9007199254740992 + 0) / pow2 (- 53)) = 5404319552844595"
    by (rule rhe_near) (simp_all add: pow2_def)
  have "round64 (5404319552844595 / 9007199254740992 + 0) = Fin (of_int 5404319552844595 * pow2 (- 53))"
    by (rule round64_cert [of "- 1" _ "- 53" 5404319552844595, OF _ _ _ r]) (simp_all add: pow2_def)
  then show ?thesis by (simp add: pow2_def)
qed

lemma py_round_10:
  "py_round (Fin (5404319552844595 / 9007199254740992)) 3 = Fin (5404319552844595 / 9007199254740992)"
proof -
  have k: "round_half_even (5404319552844595 / 9007199254740992 * 10 ^ 3) = 600"
    by (rule rhe_near) (simp_all add: pow2_def)
  have r: "round_half_even (of_int 600 / 10 ^ 3 / pow2 (- 53)) = 5404319552844595"
    by (rule rhe_near) (simp_all add: pow2_def)
  have c: "round64 (of_int 600 / 10 ^ 3) = Fin (of_int 5404319552844595 * pow2 (- 53))"
    by (rule round64_cert [of "- 1" _ "- 53" 5404319552844595, OF _ _ _ r]) (simp_all add: pow2_def)
  have v: "of_int 5404319552844595 * pow2 (- 53) = (5404319552844595 / 9007199254740992 :: rat)"
    by (simp add: pow2_def)
  show ?thesis by (simp only: py_round_def double.case k c v)
qed

lemma fadd_11:
  "fadd (Fin 1) (Fin (5404319552844595 / 9007199254740992)) = Fin (3602879701896397 / 2251799813685248)"
proof -
  have r: "round_half_even ((1 + 5404319552844595 / 9007199254740992) / pow2 (- 52)) = 7205759403792794"
    using rhe_tie [of "(1 + 5404319552844595 / 9007199254740992) / pow2 (- 52)" 7205759403792793] by (simp add: pow2_def)
  have "round64 (1 + 5404319552844595 / 9007199254740992) = Fin (of_int 7205759403792794 * pow2 (- 52))"
    by (rule round64_cert [of "0" _ "- 52" 7205759403792794, OF _ _ _ r]) (simp_all add: pow2_def)
  then show ?thesis by (simp add: pow2_def)
qed

lemma fmul_12:
  "fmul (Fin 1) (Fin (3602879701896397 / 36028797018963968)) = Fin (3602879701896397 / 36028797018963968)"
proof -
  have r: "round_half_even ((1 * 3602879701896397 / 36028797018963968) / pow2 (- 56)) = 7205759403792794"
    by (rule rhe_near) (simp_all add: pow2_def)
  have "round64 (1 * 3602879701896397 / 36028797018963968) = Fin (of_int 7205759403792794 * pow2 (- 56))"
    by (rule round64_cert [of "- 4" _ "- 56" 7205759403792794, OF _ _ _ r]) (simp_all add: pow2_def)
  then show ?thesis by (simp add: pow2_def)
qed

lemma fadd_16:
  "fadd (Fin (3602879701896397 / 36028797018963968)) (Fin 0) = Fin (3602879701896397 / 36028797018963968)"
proof -
  have r: "round_half_even ((3602879701896397 / 36028797018963968 + 0) / pow2 (- 56)) = 7205759403792794"
    by (rule rhe_near) (simp_all add: pow2_def)
  have "round64 (3602879701896397 / 36028797018963968 + 0) = Fin (of_int 7205759403792794 * pow2 (- 56))"
    by (rule round64_cert [of "- 4" _ "- 56" 7205759403792794, OF _ _ _ r]) (simp_all add: pow2_def)
  then show ?thesis by (simp add: pow2_def)
qed

lemma py_round_17:
  "py_round (Fin (3602879701896397 / 36028797018963968)) 3 = Fin (3602879701896397 / 36028797018963968)"
proof -
  have k: "round_half_even (3602879701896397 / 36028797018963968 * 10 ^ 3) = 100"
    by (rule rhe_near) (simp_all add: pow2_def)
  have r: "round_half_even (of_int 100 / 10 ^ 3 / pow2 (- 56)) = 7205759403792794"
    by (rule rhe_near) (simp_all add: pow2_def)
  have c: "round64 (of_int 100 / 10 ^ 3) = Fin (of_int 7205759403792794 * pow2 (- 56))"
    by (rule round64_cert [of "- 4" _ "- 56" 7205759403792794, OF _ _ _ r]) (simp_all add: pow2_def)
  have v: "of_int 7205759403792794 * pow2 (- 56) = (3602879701896397 / 36028797018963968 :: rat)"
    by (simp add: pow2_def)
  show ?thesis by (simp only: py_round_def double.case k c v)
qed

lemma fadd_18:
  "fadd (Fin 0) (Fin (3602879701896397 / 36028797018963968)) = Fin (3602879701896397 / 36028797018963968)"
proof -
  have r: "round_half_even ((0 + 3602879701896397 / 36028797018963968) / pow2 (- 56)) = 7205759403792794"
    by (rule rhe_near) (simp_all add: pow2_def)
  have "round64 (0 + 3602879701896397 / 36028797018963968) = Fin (of_int 7205759403792794 * pow2 (- 56))"
    by (rule round64_cert [of "- 4" _ "- 56" 7205759403792794, OF _ _ _ r]) (simp_all add: pow2_def)
  then show ?thesis by (simp add: pow2_def)
qed

lemma fmul_19:
  "fmul (Fin (3602879701896397 / 36028797018963968)) (Fin (1 / 2)) = Fin (3602879701896397 / 72057594037927936)"
proof -
  have r: "round_half_even ((3602879701896397 / 36028797018963968 * 1 / 2) / pow2 (- 57)) = 7205759403792794"
    by (rule rhe_near) (simp_all add: pow2_def)
  have "round64 (3602879701896397 / 36028797018963968 * 1 / 2) = Fin (of_int 7205759403792794 * pow2 (- 57))"
    by (rule round64_cert [of "- 5" _ "- 57" 7205759403792794, OF _ _ _ r]) (simp_all add: pow2_def)
  then show ?thesis by (simp add: pow2_def)
qed

lemma fadd_20:
  "fadd (Fin (3602879701896397 / 36028797018963968)) (Fin (3602879701896397 / 72057594037927936)) = Fin (1351079888211149 / 9007199254740992)"
proof -
  have r: "round_half_even ((3602879701896397 / 36028797018963968 + 3602879701896397 / 72057594037927936) / pow2 (- 55)) = 5404319552844596"
    using rhe_tie [of "(3602879701896397 / 36028797018963968 + 3602879701896397 / 72057594037927936) / pow2 (- 55)" 5404319552844595] by (simp add: pow2_def)
  have "round64 (3602879701896397 / 36028797018963968 + 3602879701896397 / 72057594037927936) = Fin (of_int 5404319552844596 * pow2 (- 55))"
    by (rule round64_cert [of "- 3" _ "- 55" 5404319552844596, OF _ _ _ r]) (simp_all add: pow2_def)
  then show ?thesis by (simp add: pow2_def)
qed

lemma py_round_21:
  "py_round (Fin (1351079888211149 / 9007199254740992)) 3 = Fin (5404319552844595 / 36028797018963968)"
proof -
  have k: "round_half_even (1351079888211149 / 9007199254740992 * 10 ^ 3) = 150"
    by (rule rhe_near) (simp_all add: pow2_def)
  have r: "round_half_even (of_int 150 / 10 ^ 3 / pow2 (- 55)) = 5404319552844595"
    by (rule rhe_near) (simp_all add: pow2_def)
  have c: "round64 (of_int 150 / 10 ^ 3) = Fin (of_int 5404319552844595 * pow2 (- 55))"
    by (rule round64_cert [of "- 3" _ "- 55" 5404319552844595, OF _ _ _ r]) (simp_all add: pow2_def)
  have v: "of_int 5404319552844595 * pow2 (- 55) = (5404319552844595 / 36028797018963968 :: rat)"
    by (simp add: pow2_def)
  show ?thesis by (simp only: py_round_def double.case k c v)
qed

lemma fadd_22:
  "fadd (Fin 0) (Fin (5404319552844595 / 36028797018963968)) = Fin (5404319552844595 / 36028797018963968)"
proof -
  have r: "round_half_even ((0 + 5404319552844595 / 36028797018963968) / pow2 (- 55)) = 5404319552844595"
    by (rule rhe_near) (simp_all add: pow2_def)
  have "round64 (0 + 5404319552844595 / 36028797018963968) = Fin (of_int 5404319552844595 * pow2 (- 55))"
    by (rule round64_cert [of "- 3" _ "- 55" 5404319552844595, OF _ _ _ r]) (simp_all add: pow2_def)
  then show ?thesis by (simp add: pow2_def)
qed

lemma fmul_23:
  "fmul (Fin (5404319552844595 / 36028797018963968)) (Fin (1 / 2)) = Fin (5404319552844595 / 72057594037927936)"
proof -
  have r: "round_half_even ((5404319552844595 / 36028797018963968 * 1 / 2) / pow2 (- 56)) = 5404319552844595"
    by (rule rhe_near) (simp_all add: pow2_def)
  have "round64 (5404319552844595 / 36028797018963968 * 1 / 2) = Fin (of_int 5404319552844595 * pow2 (- 56))"
    by (rule round64_cert [of "- 4" _ "- 56" 5404319552844595, OF _ _ _ r]) (simp_all add: pow2_def)
  then show ?thesis by (simp add: pow2_def)
qed

lemma fadd_24:
  "fadd (Fin (3602879701896397 / 36028797018963968)) (Fin (5404319552844595 / 72057594037927936)) = Fin (3152519739159347 / 18014398509481984)"
proof -
  have r: "round_half_even ((3602879701896397 / 36028797018963968 + 5404319552844595 / 72057594037927936) / pow2 (- 55)) = 6305039478318694"
    using rhe_tie [of "(3602879701896397 / 36028797018963968 + 5404319552844595 / 72057594037927936) / pow2 (- 55)" 6305039478318694] by (simp add: pow2_def)
  have "round64 (3602879701896397 / 36028797018963968 + 5404319552844595 / 72057594037927936) = Fin (of_int 6305039478318694 * pow2 (- 55))"
    by (rule round64_cert [of "- 3" _ "- 55" 6305039478318694, OF _ _ _ r]) (simp_all add: pow2_def)
  then show ?thesis by (simp add: pow2_def)
qed

lemma py_round_25:
  "py_round (Fin (3152519739159347 / 18014398509481984)) 3 = Fin (3152519739159347 / 18014398509481984)"
proof -
  have k: "round_half_even (3152519739159347 / 18014398509481984 * 10 ^ 3) = 175"
    by (rule rhe_near) (simp_all add: pow2_def)
  have r: "round_half_even (of_int 175 / 10 ^ 3 / pow2 (- 55)) = 6305039478318694"
    by (rule rhe_near) (simp_all add: pow2_def)
  have c: "round64 (of_int 175 / 10 ^ 3) = Fin (of_int 6305039478318694 * pow2 (- 55))"
    by (rule round64_cert [of "- 3" _ "- 55" 6305039478318694, OF _ _ _ r]) (simp_all add: pow2_def)
  have v: "of_int 6305039478318694 * pow2 (- 55) = (3152519739159347 / 18014398509481984 :: rat)"
    by (simp add: pow2_def)
  show ?thesis by (simp only: py_round_def double.case k c v)
qed

lemma fadd_26:
  "fadd (Fin (3602879701896397 / 2251799813685248)) (Fin (3152519739159347 / 18014398509481984)) = Fin (7993889338582631 / 4503599627370496)"
proof -
  have r: "round_half_even ((3602879701896397 / 2251799813685248 + 3152519739159347 / 18014398509481984) / pow2 (- 52)) = 7993889338582631"
    by (rule rhe_near) (simp_all add: pow2_def)
  have "round64 (3602879701896397 / 2251799813685248 + 3152519739159347 / 18014398509481984) = Fin (of_int 7993889338582631 * pow2 (- 52))"
    by (rule round64_cert [of "0" _ "- 52" 7993889338582631, OF _ _ _ r]) (simp_all add: pow2_def)
  then show ?thesis by (simp add: pow2_def)
qed

lemma fmul_27:
  "fmul (Fin (7993889338582631 / 4503599627370496)) (Fin (1 / 2)) = Fin (7993889338582631 / 9007199254740992)"
proof -
  have r: "round_half_even ((7993889338582631 / 4503599627370496 * 1 / 2) / pow2 (- 53)) = 7993889338582631"
    by (rule rhe_near) (simp_all add: pow2_def)
  have "round64 (7993889338582631 / 4503599627370496 * 1 / 2) = Fin (of_int 7993889338582631 * pow2 (- 53))"
    by (rule round64_cert [of "- 1" _ "- 53" 7993889338582631, OF _ _ _ r]) (simp_all add: pow2_def)
  then show ?thesis by (simp add: pow2_def)
qed

lemma fadd_28:
  "fadd (Fin 1) (Fin (7993889338582631 / 9007199254740992)) = Fin (2125136074165453 / 1125899906842624)"
proof -
  have r: "round_half_even ((1 + 7993889338582631 / 9007199254740992) / pow2 (- 52)) = 8500544296661812"
    using rhe_tie [of "(1 + 7993889338582631 / 9007199254740992) / pow2 (- 52)" 8500544296661811] by (simp add: pow2_def)
  have "round64 (1 + 7993889338582631 / 9007199254740992) = Fin (of_int 8500544296661812 * pow2 (- 52))"
    by (rule round64_cert [of "0" _ "- 52" 8500544296661812, OF _ _ _ r]) (simp_all add: pow2_def)
  then show ?thesis by (simp add: pow2_def)
qed

lemma py_round_29:
  "py_round (Fin (2125136074165453 / 1125899906842624)) 3 = Fin (1062849512059437 / 562949953421312)"
proof -
  have k: "round_half_even (2125136074165453 / 1125899906842624 * 10 ^ 3) = 1888"
    by (rule rhe_near) (simp_all add: pow2_def)
  have r: "round_half_even (of_int 1888 / 10 ^ 3 / pow2 (- 52)) = 8502796096475496"
    by (rule rhe_near) (simp_all add: pow2_def)
  have c: "round64 (of_int 1888 / 10 ^ 3) = Fin (of_int 8502796096475496 * pow2 (- 52))"
    by (rule round64_cert [of "0" _ "- 52" 8502796096475496, OF _ _ _ r]) (simp_all add: pow2_def)
  have v: "of_int 8502796096475496 * pow2 (- 52) = (1062849512059437 / 562949953421312 :: rat)"
    by (simp add: pow2_def)
  show ?thesis by (simp only: py_round_def double.case k c v)
qed

lemma fadd_50:
  "fadd (Fin 1) (Fin (3152519739159347 / 18014398509481984)) = Fin (5291729562160333 / 4503599627370496)"
proof -
  have r: "round_half_even ((1 + 3152519739159347 / 18014398509481984) / pow2 (- 52)) = 5291729562160333"
    by (rule rhe_near) (simp_all add: pow2_def)
  have "round64 (1 + 3152519739159347 / 18014398509481984) = Fin (of_int 5291729562160333 * pow2 (- 52))"
    by (rule round64_cert [of "0" _ "- 52" 5291729562160333, OF _ _ _ r]) (simp_all add: pow2_def)
  then show ?thesis by (simp add: pow2_def)
qed

lemma fadd_55:
  "fadd (Fin (5291729562160333 / 4503599627370496)) (Fin (5404319552844595 / 9007199254740992)) = Fin (3996944669291315 / 2251799813685248)"
proof -
  have r: "round_half_even ((5291729562160333 / 4503599627370496 + 5404319552844595 / 9007199254740992) / pow2 (- 52)) = 7993889338582630"
    using rhe_tie [of "(5291729562160333 / 4503599627370496 + 5404319552844595 / 9007199254740992) / pow2 (- 52)" 7993889338582630] by (simp add: pow2_def)
  have "round64 (5291729562160333 / 4503599627370496 + 5404319552844595 / 9007199254740992) = Fin (of_int 7993889338582630 * pow2 (- 52))"
    by (rule round64_cert [of "0" _ "- 52" 7993889338582630, OF _ _ _ r]) (simp_all add: pow2_def)
  then show ?thesis by (simp add: pow2_def)
qed

lemma fmul_56:
  "fmul (Fin (3996944669291315 / 2251799813685248)) (Fin (1 / 2)) = Fin (3996944669291315 / 4503599627370496)"
proof -
  have r: "round_half_even ((3996944669291315 / 2251799813685248 * 1 / 2) / pow2 (- 53)) = 7993889338582630"
    by (rule rhe_near) (simp_all add: pow2_def)
  have "round64 (3996944669291315 / 2251799813685248 * 1 / 2) = Fin (of_int 7993889338582630 * pow2 (- 53))"
    by (rule round64_cert [of "- 1" _ "- 53" 7993889338582630, OF _ _ _ r]) (simp_all add: pow2_def)
  then show ?thesis by (simp add: pow2_def)
qed

lemma fadd_57:
  "fadd (Fin 1) (Fin (3996944669291315 / 4503599627370496)) = Fin (8500544296661811 / 4503599627370496)"
proof -
  have r: "round_half_even ((1 + 3996944669291315 / 4503599627370496) / pow2 (- 52)) = 8500544296661811"
    by (rule rhe_near) (simp_all add: pow2_def)
  have "round64 (1 + 3996944669291315 / 4503599627370496) = Fin (of_int 8500544296661811 * pow2 (- 52))"
    by (rule round64_cert [of "0" _ "- 52" 8500544296661811, OF _ _ _ r]) (simp_all add: pow2_def)
  then show ?thesis by (simp add: pow2_def)
qed

lemma py_round_58:
  "py_round (Fin (8500544296661811 / 4503599627370496)) 3 = Fin (4249146248424063 / 2251799813685248)"
proof -
  have k: "round_half_even (8500544296661811 / 4503599627370496 * 10 ^ 3) = 1887"
    by (rule rhe_near) (simp_all add: pow2_def)
  have r: "round_half_even (of_int 1887 / 10 ^ 3 / pow2 (- 52)) = 8498292496848126"
    by (rule rhe_near) (simp_all add: pow2_def)
  have c: "round64 (of_int 1887 / 10 ^ 3) = Fin (of_int 8498292496848126 * pow2 (- 52))"
    by (rule round64_cert [of "0" _ "- 52" 8498292496848126, OF _ _ _ r]) (simp_all add: pow2_def)
  have v: "of_int 8498292496848126 * pow2 (- 52) = (4249146248424063 / 2251799813685248 :: rat)"
    by (simp add: pow2_def)
  show ?thesis by (simp only: py_round_def double.case k c v)
qed

lemma fmul_60:
  "fmul (Fin 1) (Fin (3602879701896397 / 4503599627370496)) = Fin (3602879701896397 / 4503599627370496)"
proof -
  have r: "round_half_even ((1 * 3602879701896397 / 4503599627370496) / pow2 (- 53)) = 7205759403792794"
    by (rule rhe_near) (simp_all add: pow2_def)
  have "round64 (1 * 3602879701896397 / 4503599627370496) = Fin (of_int 7205759403792794 * pow2 (- 53))"
    by (rule round64_cert [of "- 1" _ "- 53" 7205759403792794, OF _ _ _ r]) (simp_all add: pow2_def)
  then show ?thesis by (simp add: pow2_def)
qed

lemma fadd_62:
  "fadd (Fin (3602879701896397 / 4503599627370496)) (Fin 0) = Fin (3602879701896397 / 4503599627370496)"
proof -
  have r: "round_half_even ((3602879701896397 / 4503599627370496 + 0) / pow2 (- 53)) = 7205759403792794"
    by (rule rhe_near) (simp_all add: pow2_def)
  have "round64 (3602879701896397 / 4503599627370496 + 0) = Fin (of_int 7205759403792794 * pow2 (- 53))"
    by (rule round64_cert [of "- 1" _ "- 53" 7205759403792794, OF _ _ _ r]) (simp_all add: pow2_def)
  then show ?thesis by (simp add: pow2_def)
qed

lemma py_round_63:
  "py_round (Fin (3602879701896397 / 4503599627370496)) 3 = Fin (3602879701896397 / 4503599627370496)"
proof -
  have k: "round_half_even (3602879701896397 / 4503599627370496 * 10 ^ 3) = 800"
    by (rule rhe_near) (simp_all add: pow2_def)
  have r: "round_half_even (of_int 800 / 10 ^ 3 / pow2 (- 53)) = 7205759403792794"
    by (rule rhe_near) (simp_all add: pow2_def)
  have c: "round64 (of_int 800 / 10 ^ 3) = Fin (of_int 7205759403792794 * pow2 (- 53))"
    by (rule round64_cert [of "- 1" _ "- 53" 7205759403792794, OF _ _ _ r]) (simp_all add: pow2_def)
  have v: "of_int 7205759403792794 * pow2 (- 53) = (3602879701896397 / 4503599627370496 :: rat)"
    by (simp add: pow2_def)
  show ?thesis by (simp only: py_round_def double.case k c v)
qed

lemma fadd_64:
  "fadd (Fin 0) (Fin (3602879701896397 / 4503599627370496)) = Fin (3602879701896397 / 4503599627370496)"
proof -
  have r: "round_half_even ((0 + 3602879701896397 / 4503599627370496) / pow2 (- 53)) = 7205759403792794"
    by (rule rhe_near) (simp_all add: pow2_def)
  have "round64 (0 + 3602879701896397 / 4503599627370496) = Fin (of_int 7205759403792794 * pow2 (- 53))"
    by (rule round64_cert [of "- 1" _ "- 53" 7205759403792794, OF _ _ _ r]) (simp_all add: pow2_def)
  then show ?thesis by (simp add: pow2_def)
qed

lemma fmul_65:
  "fmul (Fin 1) (Fin (3602879701896397 / 9007199254740992)) = Fin (3602879701896397 / 9007199254740992)"
proof -
  have r: "round_half_even ((1 * 3602879701896397 / 9007199254740992) / pow2 (- 54)) = 7205759403792794"
    by (rule rhe_near) (simp_all add: pow2_def)
  have "round64 (1 * 3602879701896397 / 9007199254740992) = Fin (of_int 7205759403792794 * pow2 (- 54))"
    by (rule round64_cert [of "- 2" _ "- 54" 7205759403792794, OF _ _ _ r]) (simp_all add: pow2_def)
  then show ?thesis by (simp add: pow2_def)
qed

lemma fadd_67:
  "fadd (Fin (3602879701896397 / 9007199254740992)) (Fin 0) = Fin (3602879701896397 / 9007199254740992)"
proof -
  have r: "round_half_even ((3602879701896397 / 9007199254740992 + 0) / pow2 (- 54)) = 7205759403792794"
    by (rule rhe_near) (simp_all add: pow2_def)
  have "round64 (3602879701896397 / 9007199254740992 + 0) = Fin (of_int 7205759403792794 * pow2 (- 54))"
    by (rule round64_cert [of "- 2" _ "- 54" 7205759403792794, OF _ _ _ r]) (simp_all add: pow2_def)
  then show ?thesis by (simp add: pow2_def)
qed

lemma py_round_68:
  "py_round (Fin (3602879701896397 / 9007199254740992)) 3 = Fin (3602879701896397 / 9007199254740992)"
proof -
  have k: "round_half_even (3602879701896397 / 9007199254740992 * 10 ^ 3) = 400"
    by (rule rhe_near) (simp_all add: pow2_def)
  have r: "round_half_even (of_int 400 / 10 ^ 3 / pow2 (- 54)) = 7205759403792794"
    by (rule rhe_near) (simp_all add: pow2_def)
  have c: "round64 (of_int 400 / 10 ^ 3) = Fin (of_int 7205759403792794 * pow2 (- 54))"
    by (rule round64_cert [of "- 2" _ "- 54" 7205759403792794, OF _ _ _ r]) (simp_all add: pow2_def)
  have v: "of_int 7205759403792794 * pow2 (- 54) = (3602879701896397 / 9007199254740992 :: rat)"
    by (simp add: pow2_def)
  show ?thesis by (simp only: py_round_def double.case k c v)
qed

lemma fadd_69:
  "fadd (Fin (3602879701896397 / 4503599627370496)) (Fin (3602879701896397 / 9007199254740992)) = Fin (1351079888211149 / 1125899906842624)"
proof -
  have r: "round_half_even ((3602879701896397 / 4503599627370496 + 3602879701896397 / 9007199254740992) / pow2 (- 52)) = 5404319552844596"
    using rhe_tie [of "(3602879701896397 / 4503599627370496 + 3602879701896397 / 9007199254740992) / pow2 (- 52)" 5404319552844595] by (simp add: pow2_def)
  have "round64 (3602879701896397 / 4503599627370496 + 3602879701896397 / 9007199254740992) = Fin (of_int 5404319552844596 * pow2 (- 52))"
    by (rule round64_cert [of "0" _ "- 52" 5404319552844596, OF _ _ _ r]) (simp_all add: pow2_def)
  then show ?thesis by (simp add: pow2_def)
qed

lemma fmul_70:
  "fmul (Fin (1351079888211149 / 1125899906842624)) (Fin (1 / 2)) = Fin (1351079888211149 / 2251799813685248)"
proof -
  have r: "round_half_even ((1351079888211149 / 1125899906842624 * 1 / 2) / pow2 (- 53)) = 5404319552844596"
    by (rule rhe_near) (simp_all add: pow2_def)
  have "round64 (1351079888211149 / 1125899906842624 * 1 / 2) = Fin (of_int 5404319552844596 * pow2 (- 53))"
    by (rule round64_cert [of "- 1" _ "- 53" 5404319552844596, OF _ _ _ r]) (simp_all add: pow2_def)
  then show ?thesis by (simp add: pow2_def)
qed

lemma fadd_71:
  "fadd (Fin (5404319552844595 / 9007199254740992)) (Fin (1351079888211149 / 2251799813685248)) = Fin (1351079888211149 / 1125899906842624)"
proof -
  have r: "round_half_even ((5404319552844595 / 9007199254740992 + 1351079888211149 / 2251799813685248) / pow2 (- 52)) = 5404319552844596"
    using rhe_tie [of "(5404319552844595 / 9007199254740992 + 1351079888211149 / 2251799813685248) / pow2 (- 52)" 5404319552844595] by (simp add: pow2_def)
  have "round64 (5404319552844595 / 9007199254740992 + 1351079888211149 / 2251799813685248) = Fin (of_int 5404319552844596 * pow2 (- 52))"
    by (rule round64_cert [of "0" _ "- 52" 5404319552844596, OF _ _ _ r]) (simp_all add: pow2_def)
  then show ?thesis by (simp add: pow2_def)
qed

lemma py_round_72:
  "py_round (Fin (1351079888211149 / 1125899906842624)) 3 = Fin (5404319552844595 / 4503599627370496)"
proof -
  have k: "round_half_even (1351079888211149 / 1125899906842624 * 10 ^ 3) = 1200"
    by (rule rhe_near) (simp_all add: pow2_def)
  have r: "round_half_even (of_int 1200 / 10 ^ 3 / pow2 (- 52)) = 5404319552844595"
    by (rule rhe_near) (simp_all add: pow2_def)
  have c: "round64 (of_int 1200 / 10 ^ 3) = Fin (of_int 5404319552844595 * pow2 (- 52))"
    by (rule round64_cert [of "0" _ "- 52" 5404319552844595, OF _ _ _ r]) (simp_all add: pow2_def)
  have v: "of_int 5404319552844595 * pow2 (- 52) = (5404319552844595 / 4503599627370496 :: rat)"
    by (simp add: pow2_def)
  show ?thesis by (simp only: py_round_def double.case k c v)
qed

lemma fmul_92:
  "fmul (Fin (3602879701896397 / 2251799813685248)) (Fin (1 / 2)) = Fin (3602879701896397 / 4503599627370496)"
proof -
  have r: "round_half_even ((3602879701896397 / 2251799813685248 * 1 / 2) / pow2 (- 53)) = 7205759403792794"
    by (rule rhe_near) (simp_all add: pow2_def)
  have "round64 (3602879701896397 / 2251799813685248 * 1 / 2) = Fin (of_int 7205759403792794 * pow2 (- 53))"
    by (rule round64_cert [of "- 1" _ "- 53" 7205759403792794, OF _ _ _ r]) (simp_all add: pow2_def)
  then show ?thesis by (simp add: pow2_def)
qed

lemma fadd_93:
  "fadd (Fin 1) (Fin (3602879701896397 / 4503599627370496)) = Fin (8106479329266893 / 4503599627370496)"
proof -
  have r: "round_half_even ((1 + 3602879701896397 / 4503599627370496) / pow2 (- 52)) = 8106479329266893"
    by (rule rhe_near) (simp_all add: pow2_def)
  have "round64 (1 + 3602879701896397 / 4503599627370496) = Fin (of_int 8106479329266893 * pow2 (- 52))"
    by (rule round64_cert [of "0" _ "- 52" 8106479329266893, OF _ _ _ r]) (simp_all add: pow2_def)
  then show ?thesis by (simp add: pow2_def)
qed

lemma py_round_94:
  "py_round (Fin (8106479329266893 / 4503599627370496)) 3 = Fin (8106479329266893 / 4503599627370496)"
proof -
  have k: "round_half_even (8106479329266893 / 4503599627370496 * 10 ^ 3) = 1800"
    by (rule rhe_near) (simp_all add: pow2_def)
  have r: "round_half_even (of_int 1800 / 10 ^ 3 / pow2 (- 52)) = 8106479329266893"
    by (rule rhe_near) (simp_all add: pow2_def)
  have c: "round64 (of_int 1800 / 10 ^ 3) = Fin (of_int 8106479329266893 * pow2 (- 52))"
    by (rule round64_cert [of "0" _ "- 52" 8106479329266893, OF _ _ _ r]) (simp_all add: pow2_def)
  have v: "of_int 8106479329266893 * pow2 (- 52) = (8106479329266893 / 4503599627370496 :: rat)"
    by (simp add: pow2_def)
  show ?thesis by (simp only: py_round_def double.case k c v)
qed

lemma fadd_100:
  "fadd (Fin 0) (Fin (5404319552844595 / 9007199254740992)) = Fin (5404319552844595 / 9007199254740992)"
proof -
  have r: "round_half_even ((0 + 5404319552844595 / 9007199254740992) / pow2 (- 53)) = 5404319552844595"
    by (rule rhe_near) (simp_all add: pow2_def)
  have "round64 (0 + 5404319552844595 / 9007199254740992) = Fin (of_int 5404319552844595 * pow2 (- 53))"
    by (rule round64_cert [of "- 1" _ "- 53" 5404319552844595, OF _ _ _ r]) (simp_all add: pow2_def)
  then show ?thesis by (simp add: pow2_def)
qed

lemma fadd_105:
  "fadd (Fin (5404319552844595 / 9007199254740992)) (Fin 1) = Fin (3602879701896397 / 2251799813685248)"
proof -
  have r: "round_half_even ((5404319552844595 / 9007199254740992 + 1) / pow2 (- 52)) = 7205759403792794"
    using rhe_tie [of "(5404319552844595 / 9007199254740992 + 1) / pow2 (- 52)" 7205759403792793] by (simp add: pow2_def)
  have "round64 (5404319552844595 / 9007199254740992 + 1) = Fin (of_int 7205759403792794 * pow2 (- 52))"
    by (rule round64_cert [of "0" _ "- 52" 7205759403792794, OF _ _ _ r]) (simp_all add: pow2_def)
  then show ?thesis by (simp add: pow2_def)
qed

lemmas float_ops = fmul_1 fmul_3 fadd_4 py_round_5 fadd_6 fmul_7 fadd_9 py_round_10 fadd_11 fmul_12 fadd_16 py_round_17 fadd_18 fmul_19 fadd_20 py_round_21 fadd_22 fmul_23 fadd_24 py_round_25 fadd_26 fmul_27 fadd_28 py_round_29 fadd_50 fadd_55 fmul_56 fadd_57 py_round_58 fmul_60 fadd_62 py_round_63 fadd_64 fmul_65 fadd_67 py_round_68 fadd_69 fmul_70 fadd_71 py_round_72 fmul_92 fadd_93 py_round_94 fadd_100 fadd_105

lemma wm_experiment: "dict_get weight_map (str ''experiment'') d = Fin 1"
  by (simp add: dict_get_def weight_map_def str_def lit_1)

lemma wm_observation:
  "dict_get weight_map (str ''observation'') d = Fin (3602879701896397 / 4503599627370496)"
  by (simp add: dict_get_def weight_map_def str_def lits)

lemma wm_text:
  "dict_get weight_map (str ''text'') d = Fin (5404319552844595 / 9007199254740992)"
  by (simp add: dict_get_def weight_map_def str_def lits)

lemma wm_tradition:
  "dict_get weight_map (str ''tradition'') d = Fin (3602879701896397 / 9007199254740992)"
  by (simp add: dict_get_def weight_map_def str_def lits)

lemma wm_opinion:
  "dict_get weight_map (str ''opinion'') d = Fin (3602879701896397 / 18014398509481984)"
  by (simp add: dict_get_def weight_map_def str_def lits)

lemma wm_other:
  "pt \<notin> set (map str [''experiment'', ''observation'', ''text'', ''tradition'', ''opinion''])
   \<Longrightarrow> dict_get weight_map pt d = d"
  by (simp add: dict_get_def weight_map_def)

lemma wm_unknownlabel: "dict_get weight_map (str ''unknownlabel'') d = d"
  by (rule wm_other) (simp add: str_def)

lemmas wms = wm_experiment wm_observation wm_text wm_tradition wm_opinion wm_unknownlabel

lemma strength_of_children:
  assumes "map evaluate_strength ch = vs"
  shows "evaluate_strength (ProofNode i c s pt ch cr) =
         py_round (fadd (fmul (float_lit 1) (dict_get weight_map pt (float_lit (1 / 10))))
                        (fmul (py_sum vs) (float_lit (5 / 10)))) 3"
  using assms by (simp only: evaluate_strength.simps Let_def)

lemmas ev_simps = py_sum_def foldl.simps wms lit_1 lit_half lit_01 float_ops

lemma ev_experiment:
  "evaluate_strength (ProofNode i c s (str ''experiment'') [] cr) = Fin 1"
proof -
  have m: "map evaluate_strength [] = []" by simp
  show ?thesis by (simp only: strength_of_children [OF m] ev_simps)
qed

lemma ev_text:
  "evaluate_strength (ProofNode i c s (str ''text'') [] cr) =
   Fin (5404319552844595 / 9007199254740992)"
proof -
  have m: "map evaluate_strength [] = []" by simp
  show ?thesis by (simp only: strength_of_children [OF m] ev_simps)
qed

lemma ev_unknown0:
  "evaluate_strength (ProofNode i c s (str ''unknownlabel'') [] cr) =
   Fin (3602879701896397 / 36028797018963968)"
proof -
  have m: "map evaluate_strength [] = []" by simp
  show ?thesis by (simp only: strength_of_children [OF m] ev_simps)
qed





lemma fmul_commute: "fmul x y = fmul y x"
  by (cases x; cases y) (simp_all add: mult.commute)


lemma dict_get_weight: "dict_get weight_map pt (float_lit (1 / 10)) = spec_weight pt"
  by (simp add: dict_get_def weight_map_def spec_weight_def)

lemma spec_weight_fixed:
  "\<exists>w. spec_weight pt = Fin w \<and> 3602879701896397 / 36028797018963968 \<le> w \<and> round64 w = Fin w"
  using weight_fixed [of pt] by (simp only: dict_get_weight)

lemma fmul_one: "round64 w = Fin w \<Longrightarrow> fmul (float_lit 1) (Fin w) = Fin w"
  by (simp add: lit_1)

lemma fadd_zero_right: "round64 w = Fin w \<Longrightarrow> fadd (Fin w) (Fin 0) = Fin w"
  by simp

lemma fadd_zero_left: "round64 w = Fin w \<Longrightarrow> fadd (Fin 0) (Fin w) = Fin w"
  by simp

lemma half_zero: "fmul (float_lit (5 / 10)) (Fin 0) = Fin 0"
  by (simp add: lits round64_def)

lemma strength_unfold:
  "evaluate_strength (ProofNode i c s pt ch cr) =
   py_round
     (fadd (spec_weight pt) (fmul (float_lit (5 / 10)) (py_sum (map evaluate_strength ch)))) 3"
proof -
  obtain w where w: "spec_weight pt = Fin w" "round64 w = Fin w"
    using spec_weight_fixed [of pt] by blast
  have "fmul (float_lit 1) (spec_weight pt) = spec_weight pt"
    unfolding w(1) using w(2) by (rule fmul_one)
  then show ?thesis
    by (simp only: evaluate_strength.simps Let_def dict_get_weight
          fmul_commute [of _ "float_lit (5 / 10)"])
qed

lemma strength_refines: "evaluate_strength n = spec_strength n"
proof (induction n)
  case (ProofNode i c s pt ch cr)
  then have "map evaluate_strength ch = map spec_strength ch" by simp
  then show ?case by (simp only: strength_unfold spec_strength.simps)
qed

lemma strength_leaf:
  "evaluate_strength (ProofNode i c s pt [] cr) = py_round (spec_weight pt) 3"
proof -
  obtain w where w: "spec_weight pt = Fin w" "round64 w = Fin w"
    using spec_weight_fixed [of pt] by blast
  have "fadd (spec_weight pt) (fmul (float_lit (5 / 10)) (py_sum [])) = spec_weight pt"
    unfolding w(1) py_sum_def foldl.simps half_zero using w(2) by (rule fadd_zero_right)
  then show ?thesis by (simp only: strength_unfold list.map)
qed

lemma ev_observation:
  "evaluate_strength (ProofNode i c s (str ''observation'') [] cr) =
   Fin (3602879701896397 / 4503599627370496)"
proof -
  have m: "map evaluate_strength [] = []" by simp
  show ?thesis by (simp only: strength_of_children [OF m] ev_simps)
qed

lemma ev_tradition:
  "evaluate_strength (ProofNode i c s (str ''tradition'') [] cr) =
   Fin (3602879701896397 / 9007199254740992)"
proof -
  have m: "map evaluate_strength [] = []" by simp
  show ?thesis by (simp only: strength_of_children [OF m] ev_simps)
qed

lemma ev_text_observation_tradition:
  "evaluate_strength
     (ProofNode i c s (str ''text'')
        [ProofNode [] [] [] (str ''observation'') [] [],
         ProofNode [] [] [] (str ''tradition'') [] []] cr) =
   Fin (5404319552844595 / 4503599627370496)"
proof -
  have m: "map evaluate_strength
             [ProofNode [] [] [] (str ''observation'') [] [],
              ProofNode [] [] [] (str ''tradition'') [] []] =
           [Fin (3602879701896397 / 4503599627370496),
            Fin (3602879701896397 / 9007199254740992)]"
    by (simp only: list.map ev_observation ev_tradition)
  show ?thesis by (simp only: strength_of_children [OF m] ev_simps)
qed

lemma depth_to_dict: "dict_depth (to_dict n) = depth n"
proof (induction n)
  case (ProofNode i c s pt ch cr)
  then have "map (\<lambda>x. dict_depth (to_dict x)) ch = map depth ch" by simp
  then have "foldr max (map (\<lambda>x. dict_depth (to_dict x)) ch) 0 = foldr max (map depth ch) 0"
    by (rule arg_cong)
  then show ?case by (simp add: comp_def)
qed

lemma py_round_fixed:
  assumes "fle (Fin 0) x" "py_round x 3 = Fin r"
  shows "round64 r = Fin r \<and> 0 \<le> r"
proof (cases x)
  case (Fin q)
  with assms(1) have q: "0 \<le> q" by simp
  define m where "m = round_half_even (q * 10 ^ 3)"
  have "of_int 0 \<le> q * 10 ^ 3" using q by simp
  then have "0 \<le> m" unfolding m_def by (rule rhe_ge)
  then have nn: "(0::rat) \<le> of_int m / 10 ^ 3" by simp
  have "round64 (of_int m / 10 ^ 3) = Fin r"
    using assms(2) unfolding Fin py_round_def m_def by simp
  with nn show ?thesis by (rule round64_idem)
next
  case PInf
  with assms(2) show ?thesis by (simp add: py_round_def)
next
  case NInf
  with assms(1) show ?thesis by simp
next
  case NaN
  with assms(1) show ?thesis by simp
qed

lemma strength_nonneg: "fle (Fin 0) (evaluate_strength n)"
  using strength_ge_tenth [of n] by (rule fle_trans_zero)

lemma strength_fixed:
  assumes "evaluate_strength n = Fin r"
  shows "round64 r = Fin r \<and> 0 \<le> r"
proof (cases n)
  case (ProofNode i c s pt ch cr)
  obtain w where w: "spec_weight pt = Fin w" "3602879701896397 / 36028797018963968 \<le> w"
    using spec_weight_fixed [of pt] by blast
  have "fle (Fin 0) (py_sum (map evaluate_strength ch))"
    by (rule py_sum_nonneg) (simp add: strength_nonneg)
  then have "fle (Fin 0) (fmul (py_sum (map evaluate_strength ch)) (float_lit (5 / 10)))"
    by (rule half_nonneg)
  then have h: "fle (Fin 0) (fmul (float_lit (5 / 10)) (py_sum (map evaluate_strength ch)))"
    by (simp only: fmul_commute [of "float_lit (5 / 10)"])
  have "fle (Fin 0) (spec_weight pt)" using w by simp
  then have "fle (Fin 0)
      (fadd (spec_weight pt) (fmul (float_lit (5 / 10)) (py_sum (map evaluate_strength ch))))"
    using h by (rule fadd_nonneg)
  moreover have "py_round
      (fadd (spec_weight pt) (fmul (float_lit (5 / 10)) (py_sum (map evaluate_strength ch)))) 3
      = Fin r"
    using assms unfolding ProofNode by (simp only: strength_unfold)
  ultimately show ?thesis by (rule py_round_fixed)
qed

lemma strength_zero_left: "fadd (Fin 0) (evaluate_strength n) = evaluate_strength n"
proof (cases "evaluate_strength n")
  case (Fin r)
  then have "round64 r = Fin r" using strength_fixed [of n r] by simp
  then show ?thesis unfolding Fin by (rule fadd_zero_left)
next
  case PInf
  then show ?thesis by simp
next
  case NInf
  then show ?thesis by simp
next
  case NaN
  then show ?thesis by simp
qed

lemma py_sum_one: "py_sum (map evaluate_strength [a]) = evaluate_strength a"
  by (simp add: py_sum_def strength_zero_left)







lemma ev_text_experiment:
  "evaluate_strength
     (ProofNode [] [] [] (str ''experiment'')
        [ProofNode [] [] [] (str ''text'') [] [],
         ProofNode [] [] [] (str ''experiment'') [] []] []) =
   Fin (8106479329266893 / 4503599627370496)"
proof -
  have m: "map evaluate_strength
        [ProofNode [] [] [] (str ''text'') [] [],
         ProofNode [] [] [] (str ''experiment'') [] []] =
     [Fin (5404319552844595 / 9007199254740992), Fin 1]"
    by (simp only: list.map ev_experiment ev_text)
  show ?thesis by (simp only: strength_of_children [OF m] ev_simps)
qed

section \<open>The knowledge base: claims\<close>

text \<open>
  C2. \<open>add_entry\<close> stores the entry under its fingerprint exactly when that fingerprint is
  not yet a key; otherwise the base is unchanged. Two entries built from the same content
  and source (whatever their identifiers, timestamps and tags) leave one stored entry,
  the first.
\<close>

theorem add_entry_first_write_wins:
  "(dict_contains (entries kb) (fingerprint e) \<longrightarrow> add_entry kb e = kb) \<and>
   (\<not> dict_contains (entries kb) (fingerprint e) \<longrightarrow>
      entries (add_entry kb e) = entries kb @ [(fingerprint e, e)] \<and>
      map_of (entries (add_entry kb e)) (fingerprint e) = Some e) \<and>
   (KnowledgeEntry_init u1 t1 c s g1 = Inr e1 \<and> KnowledgeEntry_init u2 t2 c s g2 = Inr e2 \<longrightarrow>
      add_entry (add_entry kb e1) e2 = add_entry kb e1 \<and>
      all_entries (add_entry (add_entry KnowledgeBase_init e1) e2) = [e1])"
proof (intro conjI impI)
  show "add_entry kb e = kb" if "dict_contains (entries kb) (fingerprint e)"
    using that by (rule add_entry_present)
  show "entries (add_entry kb e) = entries kb @ [(fingerprint e, e)]"
    if "\<not> dict_contains (entries kb) (fingerprint e)"
    using that by (simp add: add_entry_absent)
  show "map_of (entries (add_entry kb e)) (fingerprint e) = Some e"
    if "\<not> dict_contains (entries kb) (fingerprint e)"
    using that map_of_append_absent [of "entries kb" "fingerprint e" e]
    by (simp add: add_entry_absent)
next
  assume h: "KnowledgeEntry_init u1 t1 c s g1 = Inr e1 \<and> KnowledgeEntry_init u2 t2 c s g2 = Inr e2"
  then have fp: "fingerprint e2 = fingerprint e1"
    using init_constructed [of u1 t1 c s g1 e1] init_constructed [of u2 t2 c s g2 e2]
    by (simp add: constructed_same_fingerprint)
  have present: "dict_contains (entries (add_entry kb' e1)) (fingerprint e1)" for kb'
    by (cases "dict_contains (entries kb') (fingerprint e1)")
       (simp_all add: add_entry_present add_entry_absent dict_contains_append)
  show "add_entry (add_entry kb e1) e2 = add_entry kb e1"
    by (rule add_entry_present) (simp add: fp present)
  have "add_entry (add_entry KnowledgeBase_init e1) e2 = add_entry KnowledgeBase_init e1"
    by (rule add_entry_present) (simp add: fp present)
  then show "all_entries (add_entry (add_entry KnowledgeBase_init e1) e2) = [e1]"
    by (simp add: all_entries_def dict_values_def add_entry_def KnowledgeBase_init_def
        dict_contains_def)
qed

theorem add_entry_first_write_wins_witness:
  "KnowledgeEntry_init [1] [2] [97] [98] [] = Inr \<lparr>entry_id = [1], timestamp = [2], content = [97], source = [98], tags = [], fingerprint = hexdigest (sha256 [97, 98])\<rparr> \<and>
   KnowledgeEntry_init [3] [4] [97] [98] [[5]] = Inr \<lparr>entry_id = [3], timestamp = [4], content = [97], source = [98], tags = [[5]], fingerprint = hexdigest (sha256 [97, 98])\<rparr> \<and>
   \<not> dict_contains (entries KnowledgeBase_init) (fingerprint \<lparr>entry_id = [1], timestamp = [2], content = [97], source = [98], tags = [], fingerprint = hexdigest (sha256 [97, 98])\<rparr>) \<and>
   entries (add_entry KnowledgeBase_init \<lparr>entry_id = [1], timestamp = [2], content = [97], source = [98], tags = [], fingerprint = hexdigest (sha256 [97, 98])\<rparr>) = [(fingerprint \<lparr>entry_id = [1], timestamp = [2], content = [97], source = [98], tags = [], fingerprint = hexdigest (sha256 [97, 98])\<rparr>, \<lparr>entry_id = [1], timestamp = [2], content = [97], source = [98], tags = [], fingerprint = hexdigest (sha256 [97, 98])\<rparr>)] \<and>
   dict_contains (entries (add_entry KnowledgeBase_init \<lparr>entry_id = [1], timestamp = [2], content = [97], source = [98], tags = [], fingerprint = hexdigest (sha256 [97, 98])\<rparr>)) (fingerprint \<lparr>entry_id = [3], timestamp = [4], content = [97], source = [98], tags = [[5]], fingerprint = hexdigest (sha256 [97, 98])\<rparr>) \<and>
   add_entry (add_entry KnowledgeBase_init \<lparr>entry_id = [1], timestamp = [2], content = [97], source = [98], tags = [], fingerprint = hexdigest (sha256 [97, 98])\<rparr>) \<lparr>entry_id = [3], timestamp = [4], content = [97], source = [98], tags = [[5]], fingerprint = hexdigest (sha256 [97, 98])\<rparr> = add_entry KnowledgeBase_init \<lparr>entry_id = [1], timestamp = [2], content = [97], source = [98], tags = [], fingerprint = hexdigest (sha256 [97, 98])\<rparr> \<and>
   all_entries (add_entry (add_entry KnowledgeBase_init \<lparr>entry_id = [1], timestamp = [2], content = [97], source = [98], tags = [], fingerprint = hexdigest (sha256 [97, 98])\<rparr>) \<lparr>entry_id = [3], timestamp = [4], content = [97], source = [98], tags = [[5]], fingerprint = hexdigest (sha256 [97, 98])\<rparr>) = [\<lparr>entry_id = [1], timestamp = [2], content = [97], source = [98], tags = [], fingerprint = hexdigest (sha256 [97, 98])\<rparr>]"
proof -
  have i1: "KnowledgeEntry_init [1] [2] [97] [98] [] = Inr \<lparr>entry_id = [1], timestamp = [2], content = [97], source = [98], tags = [], fingerprint = hexdigest (sha256 [97, 98])\<rparr>"
    by (simp add: KnowledgeEntry_init_def compute_fingerprint_def utf8_char_def)
  have i2: "KnowledgeEntry_init [3] [4] [97] [98] [[5]] = Inr \<lparr>entry_id = [3], timestamp = [4], content = [97], source = [98], tags = [[5]], fingerprint = hexdigest (sha256 [97, 98])\<rparr>"
    by (simp add: KnowledgeEntry_init_def compute_fingerprint_def utf8_char_def)
  have a: "\<not> dict_contains (entries KnowledgeBase_init) (fingerprint \<lparr>entry_id = [1], timestamp = [2], content = [97], source = [98], tags = [], fingerprint = hexdigest (sha256 [97, 98])\<rparr>)"
    by (simp add: KnowledgeBase_init_def dict_contains_def)
  show ?thesis
    using i1 i2 a
      add_entry_first_write_wins [of KnowledgeBase_init "\<lparr>entry_id = [1], timestamp = [2], content = [97], source = [98], tags = [], fingerprint = hexdigest (sha256 [97, 98])\<rparr>" "[1]" "[2]" "[97]" "[98]" "[]"
        "\<lparr>entry_id = [1], timestamp = [2], content = [97], source = [98], tags = [], fingerprint = hexdigest (sha256 [97, 98])\<rparr>"
        "[3]" "[4]" "[[5]]"
        "\<lparr>entry_id = [3], timestamp = [4], content = [97], source = [98], tags = [[5]], fingerprint = hexdigest (sha256 [97, 98])\<rparr>"]
    by (simp add: KnowledgeBase_init_def dict_contains_def add_entry_def all_entries_def
        dict_values_def)
qed

text \<open>
  C3, as the code has it. A Python string is a sequence of code points below 0x110000,
  and \<open>str.encode()\<close> is the strict UTF-8 codec. When \<open>content + source\<close> holds no surrogate
  code point, the constructor returns an entry whose fingerprint is the hexadecimal SHA-256
  digest of the UTF-8 bytes of content followed by source, with nothing between them: 64
  characters, digits and the letters a to f; empty strings are accepted. When
  \<open>content + source\<close> holds a surrogate code point, \<open>encode\<close> raises \<open>UnicodeEncodeError\<close> and
  no entry is built, so the claim as written (any strings) fails. The fingerprint is
  computed exactly once, at construction: the constructor is one call of
  \<open>compute_fingerprint\<close> on the fields it has just set, whose result it stores. The hash is
  deterministic: it reads the content and the source and nothing else, so entries with the
  same content and source get the same fingerprint, and computing it again on the
  constructed entry gives the stored value.
\<close>

theorem fingerprint_sha256_hex:
  "(if encodable (c @ s)
    then \<exists>bs. encode (c @ s) = Inr bs \<and>
         KnowledgeEntry_init u now c s ts =
           Inr \<lparr>entry_id = u, timestamp = now, content = c, source = s, tags = ts,
                fingerprint = hexdigest (sha256 bs)\<rparr> \<and>
         compute_fingerprint
           \<lparr>entry_id = u, timestamp = now, content = c, source = s, tags = ts,
            fingerprint = hexdigest (sha256 bs)\<rparr> = Inr (hexdigest (sha256 bs)) \<and>
         length (hexdigest (sha256 bs)) = 64 \<and>
         set (hexdigest (sha256 bs)) \<subseteq> set (str ''0123456789abcdef'')
    else KnowledgeEntry_init u now c s ts = Inl UnicodeEncodeError) \<and>
   KnowledgeEntry_init u now c s ts =
     (case compute_fingerprint
             \<lparr>entry_id = u, timestamp = now, content = c, source = s, tags = ts,
              fingerprint = []\<rparr> of
        Inl e \<Rightarrow> Inl e
      | Inr fp \<Rightarrow>
          Inr \<lparr>entry_id = u, timestamp = now, content = c, source = s, tags = ts,
               fingerprint = fp\<rparr>) \<and>
   compute_fingerprint
     \<lparr>entry_id = u', timestamp = now', content = c, source = s, tags = ts',
      fingerprint = fp'\<rparr> =
   compute_fingerprint
     \<lparr>entry_id = u, timestamp = now, content = c, source = s, tags = ts,
      fingerprint = []\<rparr>"
proof -
  have det: "compute_fingerprint
       \<lparr>entry_id = u', timestamp = now', content = c, source = s, tags = ts',
        fingerprint = fp'\<rparr> =
     compute_fingerprint
       \<lparr>entry_id = u, timestamp = now, content = c, source = s, tags = ts,
        fingerprint = []\<rparr>"
    by (simp add: compute_fingerprint_def)
  have once: "KnowledgeEntry_init u now c s ts =
     (case compute_fingerprint
             \<lparr>entry_id = u, timestamp = now, content = c, source = s, tags = ts,
              fingerprint = []\<rparr> of
        Inl e \<Rightarrow> Inl e
      | Inr fp \<Rightarrow>
          Inr \<lparr>entry_id = u, timestamp = now, content = c, source = s, tags = ts,
               fingerprint = fp\<rparr>)"
    by (simp add: KnowledgeEntry_init_def Let_def split: sum.splits)
  have main: "if encodable (c @ s)
    then \<exists>bs. encode (c @ s) = Inr bs \<and>
         KnowledgeEntry_init u now c s ts =
           Inr \<lparr>entry_id = u, timestamp = now, content = c, source = s, tags = ts,
                fingerprint = hexdigest (sha256 bs)\<rparr> \<and>
         compute_fingerprint
           \<lparr>entry_id = u, timestamp = now, content = c, source = s, tags = ts,
            fingerprint = hexdigest (sha256 bs)\<rparr> = Inr (hexdigest (sha256 bs)) \<and>
         length (hexdigest (sha256 bs)) = 64 \<and>
         set (hexdigest (sha256 bs)) \<subseteq> set (str ''0123456789abcdef'')
    else KnowledgeEntry_init u now c s ts = Inl UnicodeEncodeError"
  proof (cases "encodable (c @ s)")
    case True
    then obtain bs where bs: "encode (c @ s) = Inr bs"
      using encode_ok [of "c @ s"] by blast
    have "KnowledgeEntry_init u now c s ts =
            Inr \<lparr>entry_id = u, timestamp = now, content = c, source = s, tags = ts,
                 fingerprint = hexdigest (sha256 bs)\<rparr>"
      by (simp add: KnowledgeEntry_init_def compute_fingerprint_def bs)
    moreover have "compute_fingerprint
           \<lparr>entry_id = u, timestamp = now, content = c, source = s, tags = ts,
            fingerprint = hexdigest (sha256 bs)\<rparr> = Inr (hexdigest (sha256 bs))"
      by (simp add: compute_fingerprint_def bs)
    moreover have "length (hexdigest (sha256 bs)) = 64"
      by (simp add: length_hexdigest length_sha256)
    ultimately show ?thesis
      using True bs set_hexdigest [of "sha256 bs"] by auto
  next
    case False
    then have "\<not> (\<exists>bs. encode (c @ s) = Inr bs)"
      by (simp only: encode_ok not_False_eq_True)
    then obtain e where "encode (c @ s) = Inl e"
      by (cases "encode (c @ s)") auto
    then have "encode (c @ s) = Inl UnicodeEncodeError"
      by (cases e) simp
    then show ?thesis
      using False by (simp add: KnowledgeEntry_init_def compute_fingerprint_def)
  qed
  from main once det show ?thesis by (rule conjI [OF _ conjI])
qed

theorem fingerprint_sha256_hex_witness:
  "encodable ([97] @ [98]) \<and>
   encode ([97] @ [98]) = Inr [97, 98] \<and>
   KnowledgeEntry_init [1] [2] [97] [98] [[5]] =
     Inr \<lparr>entry_id = [1], timestamp = [2], content = [97], source = [98], tags = [[5]],
          fingerprint = hexdigest (sha256 [97, 98])\<rparr> \<and>
   length (hexdigest (sha256 [97, 98])) = 64 \<and>
   KnowledgeEntry_init [1] [2] [] [] [] =
     Inr \<lparr>entry_id = [1], timestamp = [2], content = [], source = [], tags = [],
          fingerprint = hexdigest (sha256 [])\<rparr> \<and>
   KnowledgeEntry_init [1] [2] [97, 0xDC00] [98] [] = Inl UnicodeEncodeError"
proof -
  have e: "encodable ([97] @ [98])" "encodable ([] @ [])"
    by (simp_all add: encodable_def)
  have b: "encode ([97] @ [98]) = Inr [97, 98]" "encode ([] @ []) = Inr []"
    by (simp_all add: utf8_char_def)
  have n: "\<not> encodable ([97, 0xDC00] @ [98])"
    by (simp add: encodable_def)
  show ?thesis
    using e b n
      fingerprint_sha256_hex [of "[97]" "[98]" "[1]" "[2]" "[[5]]" "[]" "[]" "[]" "[]"]
      fingerprint_sha256_hex [of "[]" "[]" "[1]" "[2]" "[]" "[]" "[]" "[]" "[]"]
      fingerprint_sha256_hex [of "[97, 0xDC00]" "[98]" "[1]" "[2]" "[]" "[]" "[]" "[]" "[]"]
    by simp
qed

theorem fingerprint_surrogate_counterexample:
  "compute_fingerprint \<lparr>entry_id = [], timestamp = [], content = [0xD800], source = [],
                        tags = [], fingerprint = []\<rparr> = Inl UnicodeEncodeError \<and>
   KnowledgeEntry_init [] [] [0xD800] [] [] = Inl UnicodeEncodeError"
  by (simp add: KnowledgeEntry_init_def compute_fingerprint_def utf8_char_def)

text \<open>
  C4. A stored entry is among the results of \<open>search_by_tag t\<close> exactly when \<open>t\<close> is one
  of its tags; the results are stored entries; when no stored entry carries the tag the
  result is the empty list.
\<close>

theorem search_by_tag_membership:
  "(e \<in> set (all_entries kb) \<longrightarrow> (e \<in> set (search_by_tag kb t) \<longleftrightarrow> t \<in> set (tags e))) \<and>
   set (search_by_tag kb t) \<subseteq> set (all_entries kb) \<and>
   ((\<forall>e \<in> set (all_entries kb). t \<notin> set (tags e)) \<longrightarrow> search_by_tag kb t = [])"
  by (auto simp: search_by_tag_def all_entries_def filter_empty_conv)

theorem search_by_tag_membership_witness:
  "\<lparr>entry_id = [3], timestamp = [4], content = [97], source = [98], tags = [[5]], fingerprint = hexdigest (sha256 [97, 98])\<rparr> \<in> set (all_entries \<lparr>entries = [([7], \<lparr>entry_id = [1], timestamp = [2], content = [97], source = [98], tags = [], fingerprint = hexdigest (sha256 [97, 98])\<rparr>), ([8], \<lparr>entry_id = [3], timestamp = [4], content = [97], source = [98], tags = [[5]], fingerprint = hexdigest (sha256 [97, 98])\<rparr>)]\<rparr>) \<and>
   \<lparr>entry_id = [3], timestamp = [4], content = [97], source = [98], tags = [[5]], fingerprint = hexdigest (sha256 [97, 98])\<rparr> \<in> set (search_by_tag \<lparr>entries = [([7], \<lparr>entry_id = [1], timestamp = [2], content = [97], source = [98], tags = [], fingerprint = hexdigest (sha256 [97, 98])\<rparr>), ([8], \<lparr>entry_id = [3], timestamp = [4], content = [97], source = [98], tags = [[5]], fingerprint = hexdigest (sha256 [97, 98])\<rparr>)]\<rparr> [5]) \<and>
   search_by_tag \<lparr>entries = [([7], \<lparr>entry_id = [1], timestamp = [2], content = [97], source = [98], tags = [], fingerprint = hexdigest (sha256 [97, 98])\<rparr>), ([8], \<lparr>entry_id = [3], timestamp = [4], content = [97], source = [98], tags = [[5]], fingerprint = hexdigest (sha256 [97, 98])\<rparr>)]\<rparr> [6] = []"
  using search_by_tag_membership [of "\<lparr>entry_id = [3], timestamp = [4], content = [97], source = [98], tags = [[5]], fingerprint = hexdigest (sha256 [97, 98])\<rparr>"
      "\<lparr>entries = [([7], \<lparr>entry_id = [1], timestamp = [2], content = [97], source = [98], tags = [], fingerprint = hexdigest (sha256 [97, 98])\<rparr>), ([8], \<lparr>entry_id = [3], timestamp = [4], content = [97], source = [98], tags = [[5]], fingerprint = hexdigest (sha256 [97, 98])\<rparr>)]\<rparr>" "[5]"]
    search_by_tag_membership [of "\<lparr>entry_id = [3], timestamp = [4], content = [97], source = [98], tags = [[5]], fingerprint = hexdigest (sha256 [97, 98])\<rparr>"
      "\<lparr>entries = [([7], \<lparr>entry_id = [1], timestamp = [2], content = [97], source = [98], tags = [], fingerprint = hexdigest (sha256 [97, 98])\<rparr>), ([8], \<lparr>entry_id = [3], timestamp = [4], content = [97], source = [98], tags = [[5]], fingerprint = hexdigest (sha256 [97, 98])\<rparr>)]\<rparr>" "[6]"]
  by (simp add: all_entries_def dict_values_def)

text \<open>
  C5. The fingerprint depends on content and source only through their concatenation:
  entries whose concatenations agree get the same result of \<open>compute_fingerprint\<close>, as
  ("ab", "c") and ("a", "bc") do.
\<close>

theorem fingerprint_no_separator:
  "content e1 @ source e1 = content e2 @ source e2 \<Longrightarrow> compute_fingerprint e1 = compute_fingerprint e2"
  by (simp add: compute_fingerprint_def)

theorem fingerprint_no_separator_witness:
  "compute_fingerprint \<lparr>entry_id = [1], timestamp = [2], content = str ''ab'', source = str ''c'',
                        tags = [], fingerprint = []\<rparr> =
   compute_fingerprint \<lparr>entry_id = [3], timestamp = [4], content = str ''a'', source = str ''bc'',
                        tags = [], fingerprint = []\<rparr> \<and>
   compute_fingerprint \<lparr>entry_id = [1], timestamp = [2], content = str ''ab'', source = str ''c'',
                        tags = [], fingerprint = []\<rparr> = Inr (hexdigest (sha256 [97, 98, 99]))"
proof -
  have "compute_fingerprint \<lparr>entry_id = [1], timestamp = [2], content = str ''ab'',
          source = str ''c'', tags = [], fingerprint = []\<rparr> = Inr (hexdigest (sha256 [97, 98, 99]))"
    by (simp add: compute_fingerprint_def str_def utf8_char_def)
  then show ?thesis
    using fingerprint_no_separator [of
      "\<lparr>entry_id = [1], timestamp = [2], content = str ''ab'', source = str ''c'',
        tags = [], fingerprint = []\<rparr>"
      "\<lparr>entry_id = [3], timestamp = [4], content = str ''a'', source = str ''bc'',
        tags = [], fingerprint = []\<rparr>"]
    by (simp add: str_def)
qed

text \<open>
  C7. In every base reached from the empty one by calls of \<open>add_entry\<close>, \<open>search_by_tag\<close>
  and \<open>all_entries\<close> on constructed entries: each key maps to an entry with that
  fingerprint, no key and no pair (content, source) occurs twice, further calls only
  append to the stored entries, and the two reading methods leave the base as it is.
\<close>

theorem knowledge_base_invariant:
  "\<forall>e \<in> set (added cs). constructed e \<Longrightarrow>
   (\<forall>(k, e) \<in> set (entries (run cs)). map_of (entries (run cs)) k = Some e \<and> fingerprint e = k) \<and>
   distinct (map fst (entries (run cs))) \<and>
   distinct (map (\<lambda>e. (content e, source e)) (all_entries (run cs))) \<and>
   (\<exists>new. all_entries (run (cs @ cs')) = all_entries (run cs) @ new) \<and>
   fst (call kb (SearchByTag t)) = kb \<and> fst (call kb AllEntries) = kb"
proof -
  assume a: "\<forall>e \<in> set (added cs). constructed e"
  then have inv: "kb_inv (run cs)" by (rule kb_inv_run)
  then have d: "distinct (map fst (entries (run cs)))" by (simp add: kb_inv_def)
  have l: "\<forall>(k, e) \<in> set (entries (run cs)). map_of (entries (run cs)) k = Some e \<and> fingerprint e = k"
    using inv d by (auto simp: kb_inv_def)
  obtain new where "entries (run (cs @ cs')) = entries (run cs) @ new"
    using run_grows by blast
  then have g: "\<exists>new. all_entries (run (cs @ cs')) = all_entries (run cs) @ new"
    by (simp add: all_entries_def dict_values_def)
  show ?thesis
    using l d kb_inv_pairs [OF inv] g by simp
qed

theorem knowledge_base_invariant_witness:
  "constructed \<lparr>entry_id = [1], timestamp = [2], content = [97], source = [98], tags = [], fingerprint = hexdigest (sha256 [97, 98])\<rparr> \<and>
   constructed \<lparr>entry_id = [3], timestamp = [4], content = [97], source = [98], tags = [[5]], fingerprint = hexdigest (sha256 [97, 98])\<rparr> \<and>
   all_entries (run [AddEntry \<lparr>entry_id = [1], timestamp = [2], content = [97], source = [98], tags = [], fingerprint = hexdigest (sha256 [97, 98])\<rparr>, SearchByTag [5], AddEntry \<lparr>entry_id = [3], timestamp = [4], content = [97], source = [98], tags = [[5]], fingerprint = hexdigest (sha256 [97, 98])\<rparr>, AllEntries]) = [\<lparr>entry_id = [1], timestamp = [2], content = [97], source = [98], tags = [], fingerprint = hexdigest (sha256 [97, 98])\<rparr>] \<and>
   distinct (map (\<lambda>e. (content e, source e))
     (all_entries (run [AddEntry \<lparr>entry_id = [1], timestamp = [2], content = [97], source = [98], tags = [], fingerprint = hexdigest (sha256 [97, 98])\<rparr>, SearchByTag [5], AddEntry \<lparr>entry_id = [3], timestamp = [4], content = [97], source = [98], tags = [[5]], fingerprint = hexdigest (sha256 [97, 98])\<rparr>, AllEntries])))"
proof -
  have h: "\<forall>e \<in> set (added [AddEntry \<lparr>entry_id = [1], timestamp = [2], content = [97], source = [98], tags = [], fingerprint = hexdigest (sha256 [97, 98])\<rparr>, SearchByTag [5], AddEntry \<lparr>entry_id = [3], timestamp = [4], content = [97], source = [98], tags = [[5]], fingerprint = hexdigest (sha256 [97, 98])\<rparr>, AllEntries]). constructed e"
    by (simp add: added_def constructed_def compute_fingerprint_def utf8_char_def)
  have r: "all_entries (run [AddEntry \<lparr>entry_id = [1], timestamp = [2], content = [97], source = [98], tags = [], fingerprint = hexdigest (sha256 [97, 98])\<rparr>, SearchByTag [5], AddEntry \<lparr>entry_id = [3], timestamp = [4], content = [97], source = [98], tags = [[5]], fingerprint = hexdigest (sha256 [97, 98])\<rparr>, AllEntries]) = [\<lparr>entry_id = [1], timestamp = [2], content = [97], source = [98], tags = [], fingerprint = hexdigest (sha256 [97, 98])\<rparr>]"
    by (simp add: run_def add_entry_def KnowledgeBase_init_def dict_contains_def
        all_entries_def dict_values_def)
  from knowledge_base_invariant [OF h] show ?thesis
    using h r by (simp add: added_def)
qed

text \<open>
  C9. \<open>search_by_tag t\<close> is \<open>all_entries()\<close> filtered by membership of \<open>t\<close> in the tags, in
  the same order.
\<close>

theorem search_by_tag_is_filter:
  "search_by_tag kb t = filter (\<lambda>e. t \<in> set (tags e)) (all_entries kb)"
  by (simp add: search_by_tag_def all_entries_def)

section \<open>Proof trees: claims\<close>

text \<open>
  C10. At every node of a finite tree \<open>evaluate_strength\<close> returns a float that is at least
  the float 0.1: every weight is at least 0.1, the half sum of the children's strengths is
  not negative, and neither the float addition nor the rounding to three decimals goes
  below 0.1 (an overflowing sum gives infinity, which is above 0.1 as well).
\<close>

theorem evaluate_strength_at_least_tenth:
  "fle (float_lit (1 / 10)) (evaluate_strength n)"
  using strength_ge_tenth [of n] by (simp only: lit_01)

text \<open>
  C1. At every node \<open>evaluate_strength\<close> returns
  \<open>round(weight + 0.5 * sum of the children's strengths, 3)\<close> in float arithmetic, the sum
  being taken over the values the children return, which are rounded already. The source
  computes \<open>1.0 * weight\<close> and \<open>sum * 0.5\<close>; both agree with the formula, since multiplying
  a float by 1.0 is exact and float multiplication is commutative. The weight is the one of
  the table, and 0.1 for every other string. A leaf returns \<open>round(weight, 3)\<close>.
\<close>

theorem evaluate_strength_recurrence:
  "evaluate_strength n = spec_strength n \<and>
   evaluate_strength n =
     py_round
       (fadd (spec_weight (proof_type n))
          (fmul (float_lit (5 / 10)) (py_sum (map evaluate_strength (children n))))) 3 \<and>
   dict_get weight_map pt (float_lit (1 / 10)) = spec_weight pt \<and>
   (children n = [] \<longrightarrow> evaluate_strength n = py_round (spec_weight (proof_type n)) 3)"
proof (cases n)
  case (ProofNode i c s p ch cr)
  have "children n = [] \<longrightarrow> evaluate_strength n = py_round (spec_weight (proof_type n)) 3"
    unfolding ProofNode ProofNode.sel using strength_leaf [of i c s p cr] by blast
  moreover have "evaluate_strength n =
     py_round
       (fadd (spec_weight (proof_type n))
          (fmul (float_lit (5 / 10)) (py_sum (map evaluate_strength (children n))))) 3"
    unfolding ProofNode ProofNode.sel by (rule strength_unfold)
  ultimately show ?thesis
    using strength_refines [of n] dict_get_weight [of pt] by blast
qed

theorem evaluate_strength_recurrence_witness:
  "children (ProofNode [1] [2] [3] (str ''unknownlabel'') [] [4]) = [] \<and>
   evaluate_strength (ProofNode [1] [2] [3] (str ''unknownlabel'') [] [4]) =
     spec_strength (ProofNode [1] [2] [3] (str ''unknownlabel'') [] [4]) \<and>
   evaluate_strength (ProofNode [1] [2] [3] (str ''unknownlabel'') [] [4]) =
     py_round (spec_weight (proof_type (ProofNode [1] [2] [3] (str ''unknownlabel'') [] [4]))) 3 \<and>
   evaluate_strength (ProofNode [1] [2] [3] (str ''unknownlabel'') [] [4]) =
     Fin (3602879701896397 / 36028797018963968)"
proof -
  have a: "children (ProofNode [1] [2] [3] (str ''unknownlabel'') [] [4]) = []"
    by simp
  have v: "evaluate_strength (ProofNode [1] [2] [3] (str ''unknownlabel'') [] [4]) =
     Fin (3602879701896397 / 36028797018963968)"
    by (rule ev_unknown0)
  from evaluate_strength_recurrence
         [of "ProofNode [1] [2] [3] (str ''unknownlabel'') [] [4]" "str ''unknownlabel''"] a v
  show ?thesis by blast
qed

text \<open>
  C6. The view of a node is a dictionary with the seven keys \<open>id\<close>, \<open>claim\<close>, \<open>source\<close>,
  \<open>proof_type\<close>, \<open>created\<close>, \<open>strength\<close>, \<open>children\<close>, in this order and no other; under
  \<open>strength\<close> is what \<open>evaluate_strength\<close> returns for this node, computed by a call of its
  own at every level, and under \<open>children\<close> is the list of the views of the children, as
  many and in the same order. The view of a tree of depth D nests to depth D.
\<close>

theorem to_dict_view:
  "\<exists>d. to_dict n = VDict d \<and>
       map fst d =
         map str [''id'', ''claim'', ''source'', ''proof_type'', ''created'', ''strength'',
                  ''children''] \<and>
       distinct (map fst d) \<and>
       map_of d (str ''id'') = Some (VStr (node_id n)) \<and>
       map_of d (str ''claim'') = Some (VStr (claim n)) \<and>
       map_of d (str ''source'') = Some (VStr (node_source n)) \<and>
       map_of d (str ''proof_type'') = Some (VStr (proof_type n)) \<and>
       map_of d (str ''created'') = Some (VStr (created n)) \<and>
       map_of d (str ''strength'') = Some (VFloat (evaluate_strength n)) \<and>
       map_of d (str ''children'') = Some (VList (map to_dict (children n))) \<and>
       length (map to_dict (children n)) = length (children n) \<and>
       dict_depth (to_dict n) = depth n"
proof (cases n)
  case (ProofNode i c s pt ch cr)
  have "dict_depth (to_dict n) = depth n" by (rule depth_to_dict)
  then show ?thesis
    unfolding ProofNode by (simp add: str_def)
qed




end
